theory Spec2Isabelle
  imports Complex_Main
begin

section \<open>JavaScript values and strings\<close>

text \<open>
  The application is a browser script (\<^verbatim>\<open>src/app.js\<close>). Its data come from JSON and GeoJSON,
  so a property such as \<^verbatim>\<open>ken\<close> or \<^verbatim>\<open>outlook\<close> may be a number, a string or missing.
  Strict equality (\<^verbatim>\<open>===\<close>) on these values is equality of the datatype: a number is
  never strictly equal to a string.

  Strings are byte lists holding the UTF-8 encoding of the JavaScript string; the script
  only concatenates strings, compares them and uses them as keys, which the encoding
  preserves. Numbers in the data are taken to be integers.
\<close>

datatype jsval = JUndefined | JNum int | JStr string

definition digit_char :: "nat \<Rightarrow> char" where
  "digit_char d = ''0123456789'' ! (d mod 10)"

function show_nat :: "nat \<Rightarrow> string" where
  "show_nat n = (if n < 10 then [digit_char n] else show_nat (n div 10) @ [digit_char (n mod 10)])"
  by pat_completeness auto
termination
  by (relation "measure (\<lambda>n. n)") auto

declare show_nat.simps [simp del]

definition show_int :: "int \<Rightarrow> string" where
  "show_int i = (if i < 0 then CHR ''-'' # show_nat (nat (- i)) else show_nat (nat i))"

text \<open>
  \<^verbatim>\<open>String(v)\<close>, which is also the conversion applied to a property key
  (\<^verbatim>\<open>table[v]\<close>) and inside a template literal.
\<close>

fun to_string :: "jsval \<Rightarrow> string" where
  "to_string JUndefined = ''undefined''"
| "to_string (JNum i) = show_int i"
| "to_string (JStr s) = s"

text \<open>
  \<^verbatim>\<open>a || b\<close> where \<^verbatim>\<open>a\<close> is a string or \<^verbatim>\<open>undefined\<close> (\<open>None\<close>): both
  \<^verbatim>\<open>undefined\<close> and the empty string are falsy.
\<close>

definition js_or :: "string option \<Rightarrow> string option \<Rightarrow> string option" where
  "js_or a b = (case a of None \<Rightarrow> b | Some x \<Rightarrow> (if x = [] then b else Some x))"

text \<open>
  \<^verbatim>\<open>parseInt(v)\<close> without a radix: the string of \<open>v\<close> without leading (ASCII) white
  space, an optional sign, an optional \<^verbatim>\<open>0x\<close> prefix that selects radix 16, then the
  longest run of digits of the radix; \<open>None\<close> is \<^verbatim>\<open>NaN\<close>, the result when the run is
  empty.
\<close>

definition is_space :: "char \<Rightarrow> bool" where
  "is_space c = (c \<in> set [CHR 0x09, CHR 0x0A, CHR 0x0B, CHR 0x0C, CHR 0x0D, CHR '' ''])"

definition digit_of :: "char \<Rightarrow> nat option" where
  "digit_of c =
     (let n = (of_char c :: nat)
      in if 48 \<le> n \<and> n \<le> 57 then Some (n - 48)
         else if 97 \<le> n \<and> n \<le> 122 then Some (n - 87)
         else if 65 \<le> n \<and> n \<le> 90 then Some (n - 55)
         else None)"

definition is_digit :: "nat \<Rightarrow> char \<Rightarrow> bool" where
  "is_digit radix c = (case digit_of c of None \<Rightarrow> False | Some d \<Rightarrow> d < radix)"

definition digit_val :: "char \<Rightarrow> int" where
  "digit_val c = (case digit_of c of None \<Rightarrow> 0 | Some d \<Rightarrow> int d)"

definition parse_digits :: "nat \<Rightarrow> string \<Rightarrow> int option" where
  "parse_digits radix s =
     (let ds = takeWhile (is_digit radix) s
      in if ds = [] then None
         else Some (foldl (\<lambda>acc c. int radix * acc + digit_val c) 0 ds))"

fun parse_unsigned :: "string \<Rightarrow> int option" where
  "parse_unsigned (c # d # cs) =
     (if c = CHR ''0'' \<and> (d = CHR ''x'' \<or> d = CHR ''X'') then parse_digits 16 cs
      else parse_digits 10 (c # d # cs))"
| "parse_unsigned cs = parse_digits 10 cs"

definition parseInt_string :: "string \<Rightarrow> int option" where
  "parseInt_string s =
     (case dropWhile is_space s of
        [] \<Rightarrow> None
      | c # cs \<Rightarrow>
          (if c = CHR ''-'' then map_option uminus (parse_unsigned cs)
           else if c = CHR ''+'' then parse_unsigned cs
           else parse_unsigned (c # cs)))"

definition parseInt :: "jsval \<Rightarrow> int option" where
  "parseInt v = parseInt_string (to_string v)"

section \<open>Constant tables\<close>

text \<open>
  An object literal with numeric keys has the decimal strings as its property names.
  Lookups are of own properties; the names inherited from \<^verbatim>\<open>Object.prototype\<close> are not
  district codes, prefecture numbers or outlook levels and are left out.
\<close>

definition PREFECTURE_NAMES :: "(string \<times> string) list" where
  "PREFECTURE_NAMES = [
    (''1'', [CHR 0xE5, CHR 0x8C, CHR 0x97, CHR 0xE6, CHR 0xB5, CHR 0xB7, CHR 0xE9, CHR 0x81, CHR 0x93]),
    (''2'', [CHR 0xE9, CHR 0x9D, CHR 0x92, CHR 0xE6, CHR 0xA3, CHR 0xAE]),
    (''3'', [CHR 0xE5, CHR 0xB2, CHR 0xA9, CHR 0xE6, CHR 0x89, CHR 0x8B]),
    (''4'', [CHR 0xE5, CHR 0xAE, CHR 0xAE, CHR 0xE5, CHR 0x9F, CHR 0x8E]),
    (''5'', [CHR 0xE7, CHR 0xA7, CHR 0x8B, CHR 0xE7, CHR 0x94, CHR 0xB0]),
    (''6'', [CHR 0xE5, CHR 0xB1, CHR 0xB1, CHR 0xE5, CHR 0xBD, CHR 0xA2]),
    (''7'', [CHR 0xE7, CHR 0xA6, CHR 0x8F, CHR 0xE5, CHR 0xB3, CHR 0xB6]),
    (''8'', [CHR 0xE8, CHR 0x8C, CHR 0xA8, CHR 0xE5, CHR 0x9F, CHR 0x8E]),
    (''9'', [CHR 0xE6, CHR 0xA0, CHR 0x83, CHR 0xE6, CHR 0x9C, CHR 0xA8]),
    (''10'', [CHR 0xE7, CHR 0xBE, CHR 0xA4, CHR 0xE9, CHR 0xA6, CHR 0xAC]),
    (''11'', [CHR 0xE5, CHR 0x9F, CHR 0xBC, CHR 0xE7, CHR 0x8E, CHR 0x89]),
    (''12'', [CHR 0xE5, CHR 0x8D, CHR 0x83, CHR 0xE8, CHR 0x91, CHR 0x89]),
    (''13'', [CHR 0xE6, CHR 0x9D, CHR 0xB1, CHR 0xE4, CHR 0xBA, CHR 0xAC]),
    (''14'', [CHR 0xE7, CHR 0xA5, CHR 0x9E, CHR 0xE5, CHR 0xA5, CHR 0x88, CHR 0xE5, CHR 0xB7, CHR 0x9D]),
    (''15'', [CHR 0xE6, CHR 0x96, CHR 0xB0, CHR 0xE6, CHR 0xBD, CHR 0x9F]),
    (''16'', [CHR 0xE5, CHR 0xAF, CHR 0x8C, CHR 0xE5, CHR 0xB1, CHR 0xB1]),
    (''17'', [CHR 0xE7, CHR 0x9F, CHR 0xB3, CHR 0xE5, CHR 0xB7, CHR 0x9D]),
    (''18'', [CHR 0xE7, CHR 0xA6, CHR 0x8F, CHR 0xE4, CHR 0xBA, CHR 0x95]),
    (''19'', [CHR 0xE5, CHR 0xB1, CHR 0xB1, CHR 0xE6, CHR 0xA2, CHR 0xA8]),
    (''20'', [CHR 0xE9, CHR 0x95, CHR 0xB7, CHR 0xE9, CHR 0x87, CHR 0x8E]),
    (''21'', [CHR 0xE5, CHR 0xB2, CHR 0x90, CHR 0xE9, CHR 0x98, CHR 0x9C]),
    (''22'', [CHR 0xE9, CHR 0x9D, CHR 0x99, CHR 0xE5, CHR 0xB2, CHR 0xA1]),
    (''23'', [CHR 0xE6, CHR 0x84, CHR 0x9B, CHR 0xE7, CHR 0x9F, CHR 0xA5]),
    (''24'', [CHR 0xE4, CHR 0xB8, CHR 0x89, CHR 0xE9, CHR 0x87, CHR 0x8D]),
    (''25'', [CHR 0xE6, CHR 0xBB, CHR 0x8B, CHR 0xE8, CHR 0xB3, CHR 0x80]),
    (''26'', [CHR 0xE4, CHR 0xBA, CHR 0xAC, CHR 0xE9, CHR 0x83, CHR 0xBD]),
    (''27'', [CHR 0xE5, CHR 0xA4, CHR 0xA7, CHR 0xE9, CHR 0x98, CHR 0xAA]),
    (''28'', [CHR 0xE5, CHR 0x85, CHR 0xB5, CHR 0xE5, CHR 0xBA, CHR 0xAB]),
    (''29'', [CHR 0xE5, CHR 0xA5, CHR 0x88, CHR 0xE8, CHR 0x89, CHR 0xAF]),
    (''30'', [CHR 0xE5, CHR 0x92, CHR 0x8C, CHR 0xE6, CHR 0xAD, CHR 0x8C, CHR 0xE5, CHR 0xB1, CHR 0xB1]),
    (''31'', [CHR 0xE9, CHR 0xB3, CHR 0xA5, CHR 0xE5, CHR 0x8F, CHR 0x96]),
    (''32'', [CHR 0xE5, CHR 0xB3, CHR 0xB6, CHR 0xE6, CHR 0xA0, CHR 0xB9]),
    (''33'', [CHR 0xE5, CHR 0xB2, CHR 0xA1, CHR 0xE5, CHR 0xB1, CHR 0xB1]),
    (''34'', [CHR 0xE5, CHR 0xBA, CHR 0x83, CHR 0xE5, CHR 0xB3, CHR 0xB6]),
    (''35'', [CHR 0xE5, CHR 0xB1, CHR 0xB1, CHR 0xE5, CHR 0x8F, CHR 0xA3]),
    (''36'', [CHR 0xE5, CHR 0xBE, CHR 0xB3, CHR 0xE5, CHR 0xB3, CHR 0xB6]),
    (''37'', [CHR 0xE9, CHR 0xA6, CHR 0x99, CHR 0xE5, CHR 0xB7, CHR 0x9D]),
    (''38'', [CHR 0xE6, CHR 0x84, CHR 0x9B, CHR 0xE5, CHR 0xAA, CHR 0x9B]),
    (''39'', [CHR 0xE9, CHR 0xAB, CHR 0x98, CHR 0xE7, CHR 0x9F, CHR 0xA5]),
    (''40'', [CHR 0xE7, CHR 0xA6, CHR 0x8F, CHR 0xE5, CHR 0xB2, CHR 0xA1]),
    (''41'', [CHR 0xE4, CHR 0xBD, CHR 0x90, CHR 0xE8, CHR 0xB3, CHR 0x80]),
    (''42'', [CHR 0xE9, CHR 0x95, CHR 0xB7, CHR 0xE5, CHR 0xB4, CHR 0x8E]),
    (''43'', [CHR 0xE7, CHR 0x86, CHR 0x8A, CHR 0xE6, CHR 0x9C, CHR 0xAC]),
    (''44'', [CHR 0xE5, CHR 0xA4, CHR 0xA7, CHR 0xE5, CHR 0x88, CHR 0x86]),
    (''45'', [CHR 0xE5, CHR 0xAE, CHR 0xAE, CHR 0xE5, CHR 0xB4, CHR 0x8E]),
    (''46'', [CHR 0xE9, CHR 0xB9, CHR 0xBF, CHR 0xE5, CHR 0x85, CHR 0x90, CHR 0xE5, CHR 0xB3, CHR 0xB6]),
    (''47'', [CHR 0xE6, CHR 0xB2, CHR 0x96, CHR 0xE7, CHR 0xB8, CHR 0x84])
  ]"

definition OUTLOOK_COLORS :: "(string \<times> string) list" where
  "OUTLOOK_COLORS = [
    (''5'', ''#2563eb''),
    (''4'', ''#60a5fa''),
    (''3'', ''#9333ea''),
    (''2'', ''#f472b6''),
    (''1'', ''#dc2626'')
  ]"

text \<open>The labels are U+5B89 U+5B9A (stable), U+512A U+52E2 (favoured), U+63A5 U+6226
  (close race), U+52A3 U+52E2 (unfavoured) and U+53B3 U+3057 U+3044 (difficult).\<close>

definition OUTLOOK_LABELS :: "(string \<times> string) list" where
  "OUTLOOK_LABELS = [
    (''5'', [CHR 0xE5, CHR 0xAE, CHR 0x89, CHR 0xE5, CHR 0xAE, CHR 0x9A]),
    (''4'', [CHR 0xE5, CHR 0x84, CHR 0xAA, CHR 0xE5, CHR 0x8B, CHR 0xA2]),
    (''3'', [CHR 0xE6, CHR 0x8E, CHR 0xA5, CHR 0xE6, CHR 0x88, CHR 0xA6]),
    (''2'', [CHR 0xE5, CHR 0x8A, CHR 0xA3, CHR 0xE5, CHR 0x8B, CHR 0xA2]),
    (''1'', [CHR 0xE5, CHR 0x8E, CHR 0xB3, CHR 0xE3, CHR 0x81, CHR 0x97, CHR 0xE3, CHR 0x81, CHR 0x84])
  ]"

definition JAPAN_CENTER :: "real \<times> real" where
  "JAPAN_CENTER = (37.0, 138.5)"

definition JAPAN_ZOOM :: nat where
  "JAPAN_ZOOM = 7"

text \<open>U+770C (prefecture) and U+533A (district), the affixes of a generated district name;
  U+73FE U+8077 (incumbent); the placeholder option of the district selector; the text of the
  placeholder card, "there is no candidate information".\<close>

definition ken_prefix :: string where
  "ken_prefix = [CHR 0xE7, CHR 0x9C, CHR 0x8C]"

definition ku_suffix :: string where
  "ku_suffix = [CHR 0xE5, CHR 0x8C, CHR 0xBA]"

definition status_incumbent :: string where
  "status_incumbent = [CHR 0xE7, CHR 0x8F, CHR 0xBE, CHR 0xE8, CHR 0x81, CHR 0xB7]"

definition district_placeholder_text :: string where
  "district_placeholder_text = [CHR 0xE9, CHR 0x81, CHR 0xB8, CHR 0xE6, CHR 0x8C, CHR 0x99, CHR 0xE5, CHR 0x8C, CHR 0xBA, CHR 0xE3, CHR 0x82, CHR 0x92, CHR 0xE9, CHR 0x81, CHR 0xB8, CHR 0xE6, CHR 0x8A, CHR 0x9E]"

definition no_information_text :: string where
  "no_information_text = [CHR 0xE5, CHR 0x80, CHR 0x99, CHR 0xE8, CHR 0xA3, CHR 0x9C, CHR 0xE8, CHR 0x80, CHR 0x85, CHR 0xE6, CHR 0x83, CHR 0x85, CHR 0xE5, CHR 0xA0, CHR 0xB1, CHR 0xE3, CHR 0x81, CHR 0x8C, CHR 0xE3, CHR 0x81, CHR 0x82, CHR 0xE3, CHR 0x82, CHR 0x8A, CHR 0xE3, CHR 0x81, CHR 0xBE, CHR 0xE3, CHR 0x81, CHR 0x9B, CHR 0xE3, CHR 0x82, CHR 0x93]"

section \<open>Data model\<close>

text \<open>
  A feature of \<^verbatim>\<open>ELECTION_DATA\<close> (defined by \<^verbatim>\<open>election_data.js\<close>): the properties
  \<^verbatim>\<open>ken\<close> (prefecture), \<^verbatim>\<open>ku\<close> (district number) and \<^verbatim>\<open>kucode\<close> (district code), and
  the positions (latitude, longitude) of its polygon or multipolygon.
\<close>

record feature =
  ken :: jsval
  ku :: jsval
  kucode :: jsval
  geometry :: "(real \<times> real) list"

text \<open>An entry of \<^verbatim>\<open>candidates.json\<close>; the \<^verbatim>\<open>candidates\<close> property may be missing.\<close>

record candidate =
  name :: string
  party :: string
  status :: string

record candidate_data =
  cd_name :: string
  outlook :: jsval
  candidates :: "candidate list option"

text \<open>The path options the script sets on a layer.\<close>

record path_style =
  fillColor :: "string option"
  weight :: nat
  opacity :: real
  color :: string
  fillOpacity :: real

text \<open>
  A plain object used as a table is a list of keys and values with each key at most once;
  \<open>set_prop\<close> assigns a property. The script only looks such tables up by key, so the
  order of the list stands for no order of the object.
\<close>

fun set_prop :: "string \<Rightarrow> 'v \<Rightarrow> (string \<times> 'v) list \<Rightarrow> (string \<times> 'v) list" where
  "set_prop k v [] = [(k, v)]"
| "set_prop k v ((k', v') # kvs) = (if k' = k then (k, v) # kvs else (k', v') # set_prop k v kvs)"

section \<open>Bounds\<close>

text \<open>
  Leaflet's \<^verbatim>\<open>LatLngBounds\<close>: \<^verbatim>\<open>L.latLngBounds()\<close> has no corners yet (\<open>None\<close>, not
  valid); \<^verbatim>\<open>extend\<close> by a position or by other bounds takes the minimum of the south-west
  and the maximum of the north-east corners, and extending by bounds without corners
  changes nothing.
\<close>

record box =
  south :: real
  west :: real
  north :: real
  east :: real

type_synonym lat_lng_bounds = "box option"

fun extend_point :: "real \<times> real \<Rightarrow> lat_lng_bounds \<Rightarrow> lat_lng_bounds" where
  "extend_point (lat, lng) None = Some \<lparr>south = lat, west = lng, north = lat, east = lng\<rparr>"
| "extend_point (lat, lng) (Some b) =
     Some \<lparr>south = min lat (south b), west = min lng (west b),
           north = max lat (north b), east = max lng (east b)\<rparr>"

fun extend_bounds :: "lat_lng_bounds \<Rightarrow> lat_lng_bounds \<Rightarrow> lat_lng_bounds" where
  "extend_bounds None this = this"
| "extend_bounds (Some b2) None = Some b2"
| "extend_bounds (Some b2) (Some b) =
     Some \<lparr>south = min (south b2) (south b), west = min (west b2) (west b),
           north = max (north b2) (north b), east = max (east b2) (east b)\<rparr>"

text \<open>\<^verbatim>\<open>L.geoJSON(feature).getBounds()\<close>: the bounds of all positions of the feature.\<close>

definition getBounds :: "feature \<Rightarrow> lat_lng_bounds" where
  "getBounds f = extend_bounds (fold extend_point (geometry f) None) None"

text \<open>Containment of bounds: bounds without corners contain no bounds with corners and are
  contained in all bounds.\<close>

fun encloses :: "lat_lng_bounds \<Rightarrow> lat_lng_bounds \<Rightarrow> bool" where
  "encloses b None = True"
| "encloses None (Some e) = False"
| "encloses (Some b) (Some e) =
     (south b \<le> south e \<and> west b \<le> west e \<and> north e \<le> north b \<and> east e \<le> east b)"

text \<open>\<^verbatim>\<open>bounds.contains(latlng)\<close>: the position lies between the corners; bounds without
  corners contain no position.\<close>

fun contains_point :: "lat_lng_bounds \<Rightarrow> real \<times> real \<Rightarrow> bool" where
  "contains_point None p = False"
| "contains_point (Some b) (lat, lng) =
     (south b \<le> lat \<and> lat \<le> north b \<and> west b \<le> lng \<and> lng \<le> east b)"

text \<open>The first loop of \<^verbatim>\<open>calculateBounds\<close>: each feature is pushed on the array of its
  prefecture and on the array of its district, the arrays being filed under the string of
  \<^verbatim>\<open>ken\<close> and of \<^verbatim>\<open>kucode\<close> (taken not to be a property name of \<^verbatim>\<open>Object.prototype\<close>).\<close>

definition push_feature ::
  "string \<Rightarrow> feature \<Rightarrow> (string \<times> feature list) list \<Rightarrow> (string \<times> feature list) list" where
  "push_feature k f tbl =
     (case map_of tbl k of
        None \<Rightarrow> set_prop k [f] tbl
      | Some fs \<Rightarrow> set_prop k (fs @ [f]) tbl)"

definition classify ::
  "feature \<Rightarrow> (string \<times> feature list) list \<times> (string \<times> feature list) list \<Rightarrow>
   (string \<times> feature list) list \<times> (string \<times> feature list) list" where
  "classify f tbls =
     (push_feature (to_string (ken f)) f (fst tbls),
      push_feature (to_string (kucode f)) f (snd tbls))"

text \<open>The body of the second and third loop: the bounds of one array of features.\<close>

definition group_bounds :: "feature list \<Rightarrow> lat_lng_bounds" where
  "group_bounds fs = fold (\<lambda>f bounds. extend_bounds (getBounds f) bounds) fs None"

definition assign_bounds ::
  "(string \<times> feature list) list \<Rightarrow> (string \<times> lat_lng_bounds) list \<Rightarrow>
   (string \<times> lat_lng_bounds) list" where
  "assign_bounds groups tbl = fold (\<lambda>(k, fs) t. set_prop k (group_bounds fs) t) groups tbl"

section \<open>Outlook style and district name\<close>

definition default_outlook :: jsval where
  "default_outlook = JStr ''competitive''"

definition outlook_for :: "(string \<times> candidate_data) list \<Rightarrow> jsval \<Rightarrow> jsval" where
  "outlook_for cdata code =
     (case map_of cdata (to_string code) of
        Some candidateData \<Rightarrow> outlook candidateData
      | None \<Rightarrow> default_outlook)"

definition getFeatureStyle :: "(string \<times> candidate_data) list \<Rightarrow> feature \<Rightarrow> path_style" where
  "getFeatureStyle cdata f =
     (let level = outlook_for cdata (kucode f);
          color = js_or (map_of OUTLOOK_COLORS (to_string level))
                        (map_of OUTLOOK_COLORS ''competitive'')
      in \<lparr>fillColor = color, weight = 1, opacity = 1, color = ''#ffffff'', fillOpacity = 0.6\<rparr>)"

definition getDistrictName ::
  "(string \<times> candidate_data) list \<Rightarrow> jsval \<Rightarrow> jsval \<Rightarrow> jsval \<Rightarrow> string" where
  "getDistrictName cdata ken' ku' kucode' =
     (case map_of cdata (to_string kucode') of
        Some candidateData \<Rightarrow> cd_name candidateData
      | None \<Rightarrow>
          (let prefName =
                 (case map_of PREFECTURE_NAMES (to_string ken') of
                    None \<Rightarrow> ken_prefix @ to_string ken'
                  | Some n \<Rightarrow> (if n = [] then ken_prefix @ to_string ken' else n))
           in prefName @ to_string ku' @ ku_suffix))"

section \<open>Application state\<close>

text \<open>
  The global variables of the script, the part of the page it writes, and the map.
  A layer is named by its position in the GeoJSON layer group, which holds one layer
  per feature, in the order of the features. The map is seen through the requests made
  to it: \<open>viewport\<close> is the view last requested (\<open>None\<close> before the map exists) and
  \<open>map_calls\<close> lists every \<^verbatim>\<open>setView\<close> and \<^verbatim>\<open>fitBounds\<close> request in order.
  \<open>paint_order\<close> is the order of the layers in the renderer, the front last.
\<close>

datatype view_request =
    SetView "real \<times> real" nat
  | FitBounds box nat nat

record layer =
  feature_of :: feature
  options :: path_style
  tooltip :: string

text \<open>A card of the candidate list: the text of its name line and its tags (class, text).\<close>

datatype card = Card string "(string \<times> string) list"

datatype js_error =
    FetchFailed
  | CandidatesNotOk
  | JsonParseFailed
  | ElectionDataUndefined
  | TypeError
  | ReferenceError
  | BoundsNotValid

record app_state =
  CANDIDATES_DATA :: "(string \<times> candidate_data) list"
  ELECTION_DATA :: "feature list option"
  geojsonLayer :: "layer list option"
  districtBounds :: "(string \<times> lat_lng_bounds) list"
  prefectureBounds :: "(string \<times> lat_lng_bounds) list"
  currentPrefecture :: "jsval option"
  selectedLayer :: "nat option"
  viewport :: "view_request option"
  map_calls :: "view_request list"
  paint_order :: "nat list"
  sidebar_open :: bool
  overlay_visible :: bool
  district_name_text :: string
  district_outlook_text :: "string option"
  district_outlook_class :: string
  candidates_list :: "card list"
  prefecture_select_options :: "(string \<times> string) list"
  prefecture_select_value :: string
  district_select_options :: "(string \<times> string) list"
  district_select_value :: string
  district_select_disabled :: bool
  selectors_wired :: bool
  listeners_wired :: bool
  console_errors :: "js_error list"

text \<open>
  The state when the script has been evaluated and \<^verbatim>\<open>DOMContentLoaded\<close> has not fired.
  The page itself is not part of the script: its panel is taken to be closed, its
  district selector to be disabled with the placeholder option that \<open>resetView\<close> writes,
  and the options of its prefecture selector are left out.
\<close>

definition initial_state :: "feature list option \<Rightarrow> app_state" where
  "initial_state election_data =
     \<lparr>CANDIDATES_DATA = [], ELECTION_DATA = election_data, geojsonLayer = None,
      districtBounds = [], prefectureBounds = [], currentPrefecture = None,
      selectedLayer = None, viewport = None, map_calls = [], paint_order = [],
      sidebar_open = False, overlay_visible = False, district_name_text = [],
      district_outlook_text = None, district_outlook_class = [], candidates_list = [],
      prefecture_select_options = [], prefecture_select_value = [],
      district_select_options = [([], district_placeholder_text)],
      district_select_value = [], district_select_disabled = True,
      selectors_wired = False, listeners_wired = False, console_errors = []\<rparr>"

text \<open>
  A handler either runs to its end or throws; what it has written before throwing stays
  written.
\<close>

datatype outcome = Done app_state | Thrown js_error app_state

fun state_of :: "outcome \<Rightarrow> app_state" where
  "state_of (Done s) = s"
| "state_of (Thrown e s) = s"

fun and_then :: "outcome \<Rightarrow> (app_state \<Rightarrow> outcome) \<Rightarrow> outcome" where
  "and_then (Done s) f = f s"
| "and_then (Thrown e s) f = Thrown e s"

section \<open>Loading\<close>

definition initMap :: "app_state \<Rightarrow> app_state" where
  "initMap s = s\<lparr>viewport := Some (SetView JAPAN_CENTER JAPAN_ZOOM)\<rparr>"

definition calculateBounds :: "feature list \<Rightarrow> app_state \<Rightarrow> app_state" where
  "calculateBounds features s =
     (let tbls = fold classify features ([], []);
          prefectureFeatures = fst tbls;
          districtFeatures = snd tbls
      in s\<lparr>prefectureBounds := assign_bounds prefectureFeatures (prefectureBounds s),
            districtBounds := assign_bounds districtFeatures (districtBounds s)\<rparr>)"

text \<open>\<^verbatim>\<open>L.geoJSON\<close> with \<^verbatim>\<open>style\<close> and \<^verbatim>\<open>onEachFeature\<close>: a layer per feature, styled
  by \<open>getFeatureStyle\<close>, its tooltip bound to the district name.\<close>

definition onEachFeature :: "(string \<times> candidate_data) list \<Rightarrow> feature \<Rightarrow> layer" where
  "onEachFeature cdata f =
     \<lparr>feature_of = f, options = getFeatureStyle cdata f,
      tooltip = getDistrictName cdata (ken f) (ku f) (kucode f)\<rparr>"

definition addGeoJSONLayer :: "feature list \<Rightarrow> app_state \<Rightarrow> app_state" where
  "addGeoJSONLayer features s =
     s\<lparr>geojsonLayer := Some (map (onEachFeature (CANDIDATES_DATA s)) features),
       paint_order := [0..<length features]\<rparr>"

text \<open>
  The outcome of \<^verbatim>\<open>fetch('candidates.json')\<close>: the promise is rejected, or a response
  arrives with its \<^verbatim>\<open>ok\<close> flag and the result of \<^verbatim>\<open>json()\<close> (\<open>None\<close> when the body
  does not parse).
\<close>

datatype fetch_result =
    Rejected
  | Response bool "(string \<times> candidate_data) list option"

definition console_error :: "js_error \<Rightarrow> app_state \<Rightarrow> app_state" where
  "console_error e s = s\<lparr>console_errors := console_errors s @ [e]\<rparr>"

text \<open>The \<^verbatim>\<open>try\<close> block of \<open>loadElectionData\<close>; every throw inside it reaches the
  \<^verbatim>\<open>catch\<close>, which logs the error and returns normally.\<close>

definition loadElectionData :: "fetch_result \<Rightarrow> app_state \<Rightarrow> app_state" where
  "loadElectionData fetched s =
     (case fetched of
        Rejected \<Rightarrow> console_error FetchFailed s
      | Response ok body \<Rightarrow>
          (if \<not> ok then console_error CandidatesNotOk s
           else
             (case body of
                None \<Rightarrow> console_error JsonParseFailed s
              | Some cdata \<Rightarrow>
                  (let s1 = s\<lparr>CANDIDATES_DATA := cdata\<rparr>
                   in case ELECTION_DATA s1 of
                        None \<Rightarrow> console_error ElectionDataUndefined s1
                      | Some features \<Rightarrow> addGeoJSONLayer features (calculateBounds features s1)))))"

definition initSelectors :: "app_state \<Rightarrow> app_state" where
  "initSelectors s =
     s\<lparr>prefecture_select_options := prefecture_select_options s @ PREFECTURE_NAMES,
       selectors_wired := True\<rparr>"

definition setupEventListeners :: "app_state \<Rightarrow> app_state" where
  "setupEventListeners s = s\<lparr>listeners_wired := True\<rparr>"

text \<open>The \<^verbatim>\<open>DOMContentLoaded\<close> handler, from the state of the freshly loaded page.\<close>

definition boot :: "fetch_result \<Rightarrow> feature list option \<Rightarrow> app_state" where
  "boot fetched election_data =
     setupEventListeners (initSelectors (loadElectionData fetched (initMap (initial_state election_data))))"

section \<open>Map and layer operations\<close>

definition setView :: "real \<times> real \<Rightarrow> nat \<Rightarrow> app_state \<Rightarrow> app_state" where
  "setView center zoom s =
     s\<lparr>viewport := Some (SetView center zoom), map_calls := map_calls s @ [SetView center zoom]\<rparr>"

text \<open>\<^verbatim>\<open>map.fitBounds(bounds, {padding: [p, p], maxZoom: z})\<close>; Leaflet throws on bounds
  that are not valid.\<close>

definition fitBounds :: "lat_lng_bounds \<Rightarrow> nat \<Rightarrow> nat \<Rightarrow> app_state \<Rightarrow> outcome" where
  "fitBounds bounds padding maxZoom s =
     (case bounds of
        None \<Rightarrow> Thrown BoundsNotValid s
      | Some b \<Rightarrow>
          Done (s\<lparr>viewport := Some (FitBounds b padding maxZoom),
                  map_calls := map_calls s @ [FitBounds b padding maxZoom]\<rparr>))"

text \<open>\<^verbatim>\<open>layer.setStyle({weight: w, opacity: 1, color: '#ffffff', fillOpacity: 0.85})\<close>:
  the four options named are overwritten, the fill colour is kept.\<close>

definition highlight :: "nat \<Rightarrow> path_style \<Rightarrow> path_style" where
  "highlight w st = st\<lparr>weight := w, opacity := 1, color := ''#ffffff'', fillOpacity := 0.85\<rparr>"

definition setStyle :: "nat \<Rightarrow> nat \<Rightarrow> app_state \<Rightarrow> app_state" where
  "setStyle i w s =
     (case geojsonLayer s of
        None \<Rightarrow> s
      | Some ls \<Rightarrow>
          (if i < length ls
           then s\<lparr>geojsonLayer := Some (ls[i := (ls ! i)\<lparr>options := highlight w (options (ls ! i))\<rparr>])\<rparr>
           else s))"

text \<open>\<^verbatim>\<open>geojsonLayer.resetStyle(layer)\<close>: the layer gets the style of its feature again.
  Reading a method of an undefined \<^verbatim>\<open>geojsonLayer\<close> throws.\<close>

definition resetStyle :: "nat \<Rightarrow> app_state \<Rightarrow> outcome" where
  "resetStyle i s =
     (case geojsonLayer s of
        None \<Rightarrow> Thrown TypeError s
      | Some ls \<Rightarrow>
          (if i < length ls
           then Done (s\<lparr>geojsonLayer :=
                  Some (ls[i := (ls ! i)\<lparr>options :=
                    getFeatureStyle (CANDIDATES_DATA s) (feature_of (ls ! i))\<rparr>])\<rparr>)
           else Done s))"

definition bringToFront :: "nat \<Rightarrow> app_state \<Rightarrow> app_state" where
  "bringToFront i s = s\<lparr>paint_order := filter (\<lambda>j. j \<noteq> i) (paint_order s) @ [i]\<rparr>"

section \<open>Side panel\<close>

definition candidate_card :: "candidate \<Rightarrow> card" where
  "candidate_card c =
     Card (name c)
       [(''candidate-tag party'', party c),
        (''candidate-tag status-'' @ (if status c = status_incumbent then ''incumbent'' else ''new''),
         status c)]"

definition no_information_card :: card where
  "no_information_card = Card no_information_text []"

definition showDistrictInfo :: "jsval \<Rightarrow> jsval \<Rightarrow> jsval \<Rightarrow> app_state \<Rightarrow> app_state" where
  "showDistrictInfo ken' ku' kucode' s =
     (let districtName = getDistrictName (CANDIDATES_DATA s) ken' ku' kucode';
          candidateData = map_of (CANDIDATES_DATA s) (to_string kucode');
          level = (case candidateData of Some d \<Rightarrow> outlook d | None \<Rightarrow> default_outlook)
      in s\<lparr>district_name_text := districtName,
            district_outlook_text := map_of OUTLOOK_LABELS (to_string level),
            district_outlook_class := ''outlook-badge '' @ to_string level,
            candidates_list :=
              (case candidateData of
                 None \<Rightarrow> [no_information_card]
               | Some d \<Rightarrow>
                   (case candidates d of
                      None \<Rightarrow> [no_information_card]
                    | Some cs \<Rightarrow> map candidate_card cs)),
            sidebar_open := True,
            overlay_visible := True\<rparr>)"

text \<open>The block \<^verbatim>\<open>if (selectedLayer) { ... }\<close> that \<open>resetView\<close> and \<open>closeSidebar\<close>
  both contain: the selected layer is reset and forgotten.\<close>

definition clear_selection :: "app_state \<Rightarrow> outcome" where
  "clear_selection s =
     (case selectedLayer s of
        None \<Rightarrow> Done s
      | Some j \<Rightarrow> and_then (resetStyle j s) (\<lambda>s1. Done (s1\<lparr>selectedLayer := None\<rparr>)))"

definition closeSidebar :: "app_state \<Rightarrow> outcome" where
  "closeSidebar s = clear_selection (s\<lparr>sidebar_open := False, overlay_visible := False\<rparr>)"

section \<open>Selection and zoom\<close>

definition zoomToPrefecture :: "jsval \<Rightarrow> app_state \<Rightarrow> outcome" where
  "zoomToPrefecture ken' s =
     (case map_of (prefectureBounds s) (to_string ken') of
        None \<Rightarrow> Done s
      | Some bounds \<Rightarrow>
          and_then (fitBounds bounds 50 10 s) (\<lambda>s1. Done (s1\<lparr>currentPrefecture := Some ken'\<rparr>)))"

definition resetView :: "app_state \<Rightarrow> outcome" where
  "resetView s =
     and_then (clear_selection ((setView JAPAN_CENTER JAPAN_ZOOM s)\<lparr>currentPrefecture := None\<rparr>))
       (\<lambda>s1. and_then (closeSidebar s1)
          (\<lambda>s2. Done (s2\<lparr>prefecture_select_value := [],
                          district_select_options := [([], district_placeholder_text)],
                          district_select_value := [],
                          district_select_disabled := True\<rparr>)))"

definition handleMouseOver :: "nat \<Rightarrow> app_state \<Rightarrow> outcome" where
  "handleMouseOver i s = Done (bringToFront i (setStyle i 2 s))"

definition handleMouseOut :: "nat \<Rightarrow> app_state \<Rightarrow> outcome" where
  "handleMouseOut i s = (if selectedLayer s = Some i then Done s else resetStyle i s)"

text \<open>
  \<open>handleDistrictClick i f\<close>: the click handler of layer \<open>i\<close>, whose feature is \<open>f\<close>.
  The test \<^verbatim>\<open>selectedLayer !== feature\<close> compares a layer with a feature, two different
  objects, so the previously selected layer is reset whenever there is one.
\<close>

definition handleDistrictClick :: "nat \<Rightarrow> feature \<Rightarrow> app_state \<Rightarrow> outcome" where
  "handleDistrictClick i f s =
     and_then (if currentPrefecture s \<noteq> Some (ken f) then zoomToPrefecture (ken f) s else Done s)
       (\<lambda>s1. and_then (case selectedLayer s1 of None \<Rightarrow> Done s1 | Some j \<Rightarrow> resetStyle j s1)
          (\<lambda>s2. Done (showDistrictInfo (ken f) (ku f) (kucode f)
                   (bringToFront i ((setStyle i 3 s2)\<lparr>selectedLayer := Some i\<rparr>)))))"

text \<open>The loop of \<open>selectDistrictByCode\<close> over the layers keeps the last layer whose
  \<^verbatim>\<open>kucode\<close> is strictly equal to the code. The bounds of a layer are those of its
  feature.\<close>

definition find_target :: "layer list \<Rightarrow> jsval \<Rightarrow> nat option" where
  "find_target ls kucode' =
     fold (\<lambda>i target. if kucode (feature_of (ls ! i)) = kucode' then Some i else target)
       [0..<length ls] None"

definition selectDistrictByCode :: "jsval \<Rightarrow> app_state \<Rightarrow> outcome" where
  "selectDistrictByCode kucode' s =
     (case geojsonLayer s of
        None \<Rightarrow> Thrown TypeError s
      | Some ls \<Rightarrow>
          (case find_target ls kucode' of
             None \<Rightarrow> Done s
           | Some t \<Rightarrow>
               (let f = feature_of (ls ! t)
                in and_then
                     (case selectedLayer s of
                        None \<Rightarrow> Done s
                      | Some j \<Rightarrow> (if j \<noteq> t then resetStyle j s else Done s))
                     (\<lambda>s1. and_then
                        (fitBounds (getBounds f) 50 12
                           (bringToFront t (setStyle t 3 (s1\<lparr>selectedLayer := Some t\<rparr>))))
                        (\<lambda>s2. Done (showDistrictInfo (ken f) (ku f) (kucode f) s2))))))"

section \<open>Selectors\<close>

text \<open>An entry of \<^verbatim>\<open>districtMap\<close>: \<^verbatim>\<open>code\<close>, \<^verbatim>\<open>name\<close> and the parsed \<^verbatim>\<open>ku\<close>.\<close>

record district_entry =
  code :: jsval
  entry_name :: string
  entry_ku :: "int option"

text \<open>The body of the loop over \<^verbatim>\<open>ELECTION_DATA.features\<close>: a feature of the chosen
  prefecture is entered under its \<^verbatim>\<open>kucode\<close> unless the map has that key already.\<close>

definition collect_district ::
  "(string \<times> candidate_data) list \<Rightarrow> string \<Rightarrow> feature \<Rightarrow> district_entry list \<Rightarrow> district_entry list" where
  "collect_district cdata kenCode f districtMap =
     (if to_string (ken f) = kenCode
      then (if kucode f \<in> set (map code districtMap) then districtMap
            else districtMap @
                   [\<lparr>code = kucode f,
                     entry_name = getDistrictName cdata (ken f) (ku f) (kucode f),
                     entry_ku = parseInt (ku f)\<rparr>])
      else districtMap)"

text \<open>
  \<^verbatim>\<open>sort((a, b) => a.ku - b.ku)\<close>. The sort is stable; the comparator is negative when
  both numbers parsed and the first is smaller, and a \<^verbatim>\<open>NaN\<close> difference counts as zero.
  The model is insertion from the left, which agrees with every conforming sort when all
  numbers parse.
\<close>

definition ku_before :: "district_entry \<Rightarrow> district_entry \<Rightarrow> bool" where
  "ku_before a b = (case (entry_ku a, entry_ku b) of (Some x, Some y) \<Rightarrow> x < y | _ \<Rightarrow> False)"

fun insert_district :: "district_entry \<Rightarrow> district_entry list \<Rightarrow> district_entry list" where
  "insert_district d [] = [d]"
| "insert_district d (e # es) = (if ku_before d e then d # e # es else e # insert_district d es)"

definition sort_districts :: "district_entry list \<Rightarrow> district_entry list" where
  "sort_districts ds = fold insert_district ds []"

definition updateDistrictSelect :: "string \<Rightarrow> app_state \<Rightarrow> outcome" where
  "updateDistrictSelect kenCode s =
     (let s1 = s\<lparr>district_select_options := [([], district_placeholder_text)],
                 district_select_value := [],
                 district_select_disabled := False\<rparr>
      in case ELECTION_DATA s1 of
           None \<Rightarrow> Thrown ReferenceError s1
         | Some features \<Rightarrow>
             (let districtMap = fold (collect_district (CANDIDATES_DATA s1) kenCode) features [];
                  sortedDistricts = sort_districts districtMap
              in Done (s1\<lparr>district_select_options :=
                   district_select_options s1 @
                     map (\<lambda>d. (to_string (code d), entry_name d)) sortedDistricts\<rparr>)))"

definition prefecture_change :: "string \<Rightarrow> app_state \<Rightarrow> outcome" where
  "prefecture_change kenCode s =
     (if kenCode = [] then resetView s
      else and_then (zoomToPrefecture (JStr kenCode) s) (updateDistrictSelect kenCode))"

definition district_change :: "string \<Rightarrow> app_state \<Rightarrow> outcome" where
  "district_change kucode' s = (if kucode' = [] then Done s else selectDistrictByCode (JStr kucode') s)"

section \<open>Events\<close>

text \<open>
  The events the script listens to: mouse events of a layer, a change of either selector
  to a value, the reset and close buttons, a click on the overlay, a key press, and the
  end of a drag on the handle of the side panel (the distance dragged down and whether
  the window has mobile size). The events of the legend and of resizing only fold the
  legend and are left out. A change event may carry any value here; the page only sends
  the values of the options the selector holds.
\<close>

datatype event =
    MouseOver nat
  | MouseOut nat
  | Click nat
  | PrefectureChange string
  | DistrictChange string
  | ResetClick
  | SidebarCloseClick
  | OverlayClick
  | KeyDown string
  | SidebarTouchEnd int bool

definition layer_at :: "nat \<Rightarrow> app_state \<Rightarrow> layer option" where
  "layer_at i s =
     (case geojsonLayer s of
        None \<Rightarrow> None
      | Some ls \<Rightarrow> (if i < length ls then Some (ls ! i) else None))"

text \<open>
  A layer event fires only on a layer that exists; the other events reach a handler only
  once it has been registered. A change event carries the new value of its selector.
\<close>

fun handle :: "event \<Rightarrow> app_state \<Rightarrow> outcome" where
  "handle (MouseOver i) s =
     (case layer_at i s of None \<Rightarrow> Done s | Some l \<Rightarrow> handleMouseOver i s)"
| "handle (MouseOut i) s =
     (case layer_at i s of None \<Rightarrow> Done s | Some l \<Rightarrow> handleMouseOut i s)"
| "handle (Click i) s =
     (case layer_at i s of None \<Rightarrow> Done s | Some l \<Rightarrow> handleDistrictClick i (feature_of l) s)"
| "handle (PrefectureChange v) s =
     (if selectors_wired s then prefecture_change v (s\<lparr>prefecture_select_value := v\<rparr>)
      else Done (s\<lparr>prefecture_select_value := v\<rparr>))"
| "handle (DistrictChange v) s =
     (if selectors_wired s then district_change v (s\<lparr>district_select_value := v\<rparr>)
      else Done (s\<lparr>district_select_value := v\<rparr>))"
| "handle ResetClick s = (if listeners_wired s then resetView s else Done s)"
| "handle SidebarCloseClick s = (if listeners_wired s then closeSidebar s else Done s)"
| "handle OverlayClick s = (if listeners_wired s then closeSidebar s else Done s)"
| "handle (KeyDown k) s =
     (if listeners_wired s \<and> k = ''Escape'' then closeSidebar s else Done s)"
| "handle (SidebarTouchEnd deltaY mobile) s =
     (if listeners_wired s \<and> deltaY > 100 \<and> mobile then closeSidebar s else Done s)"

text \<open>An exception that leaves a handler ends that handler only; the next event finds
  the state as the handler left it.\<close>

definition step :: "event \<Rightarrow> app_state \<Rightarrow> app_state" where
  "step e s = state_of (handle e s)"

definition run :: "event list \<Rightarrow> app_state \<Rightarrow> app_state" where
  "run es s = fold step es s"

section \<open>Reachable states and their invariant\<close>

text \<open>The layers of the map; none before the GeoJSON layer group exists.\<close>

definition layers :: "app_state \<Rightarrow> layer list" where
  "layers s = (case geojsonLayer s of None \<Rightarrow> [] | Some ls \<Rightarrow> ls)"

text \<open>The two ways a handler rewrites the options of one layer of a list.\<close>

definition reset_at :: "(string \<times> candidate_data) list \<Rightarrow> nat \<Rightarrow> layer list \<Rightarrow> layer list" where
  "reset_at cd j ls = ls[j := (ls ! j)\<lparr>options := getFeatureStyle cd (feature_of (ls ! j))\<rparr>]"

definition mark_at :: "nat \<Rightarrow> nat \<Rightarrow> layer list \<Rightarrow> layer list" where
  "mark_at i w ls = ls[i := (ls ! i)\<lparr>options := highlight w (options (ls ! i))\<rparr>]"

definition unselect :: "(string \<times> candidate_data) list \<Rightarrow> nat option \<Rightarrow> layer list \<Rightarrow> layer list" where
  "unselect cd sel ls = (case sel of None \<Rightarrow> ls | Some j \<Rightarrow> reset_at cd j ls)"

text \<open>
  A layer is marked as selected when it carries the border weight 3 of the selection
  style; the emphasis under the mouse pointer has weight 2 and the style of a feature
  weight 1.
\<close>

definition marked :: "layer list \<Rightarrow> nat set" where
  "marked ls = {i. i < length ls \<and> weight (options (ls ! i)) = 3}"

definition fills_ok :: "(string \<times> candidate_data) list \<Rightarrow> layer list \<Rightarrow> bool" where
  "fills_ok cd ls =
     (\<forall>l \<in> set ls. fillColor (options l) = fillColor (getFeatureStyle cd (feature_of l)))"

definition bounds_ok :: "(string \<times> lat_lng_bounds) list \<Rightarrow> layer list \<Rightarrow> bool" where
  "bounds_ok pb ls =
     (\<forall>l \<in> set ls. \<exists>b. map_of pb (to_string (ken (feature_of l))) = Some b \<and>
         encloses b (getBounds (feature_of l)))"

text \<open>
  What holds in every state the page can reach: the handlers are registered, the selected
  layer exists, every layer has the fill colour of its feature, only the selected layer
  can be marked, and the prefecture table has bounds around every layer.
\<close>

definition consistent :: "app_state \<Rightarrow> bool" where
  "consistent s =
     (selectors_wired s \<and> listeners_wired s \<and>
      (\<forall>j. selectedLayer s = Some j \<longrightarrow> j < length (layers s)) \<and>
      fills_ok (CANDIDATES_DATA s) (layers s) \<and>
      marked (layers s) \<subseteq> set_option (selectedLayer s) \<and>
      bounds_ok (prefectureBounds s) (layers s))"

text \<open>
  The layers under the mouse pointer after a list of events: those with a mouse-over
  that no mouse-out has followed. A list of layers is plain outside a set when every layer
  that is neither in the set nor the selected one has exactly the style of its feature.
\<close>

fun hover_step :: "event \<Rightarrow> nat set \<Rightarrow> nat set" where
  "hover_step (MouseOver i) H = insert i H"
| "hover_step (MouseOut i) H = H - {i}"
| "hover_step e H = H"

definition hovering :: "event list \<Rightarrow> nat set" where
  "hovering es = fold hover_step es {}"

definition plain ::
  "(string \<times> candidate_data) list \<Rightarrow> nat option \<Rightarrow> nat set \<Rightarrow> layer list \<Rightarrow> bool" where
  "plain cd sel H ls =
     (\<forall>i<length ls. i \<notin> H \<and> sel \<noteq> Some i \<longrightarrow>
        options (ls ! i) = getFeatureStyle cd (feature_of (ls ! i)))"

text \<open>The state in which both selection routes end, given the state \<open>s\<close> after their
  map request and the restyled layers \<open>ls\<close>.\<close>

definition entered :: "nat \<Rightarrow> layer list \<Rightarrow> app_state \<Rightarrow> app_state" where
  "entered i ls s =
     showDistrictInfo (ken (feature_of (ls ! i))) (ku (feature_of (ls ! i))) (kucode (feature_of (ls ! i)))
       (s\<lparr>geojsonLayer := Some ls, selectedLayer := Some i,
          paint_order := filter (\<lambda>j. j \<noteq> i) (paint_order s) @ [i]\<rparr>)"

definition cleared :: "app_state \<Rightarrow> app_state" where
  "cleared s =
     s\<lparr>geojsonLayer := map_option (unselect (CANDIDATES_DATA s) (selectedLayer s)) (geojsonLayer s),
       selectedLayer := None\<rparr>"

definition marked_state :: "nat \<Rightarrow> layer list \<Rightarrow> app_state \<Rightarrow> app_state" where
  "marked_state t ls s =
     s\<lparr>geojsonLayer := Some (mark_at t 3 (if selectedLayer s = Some t then ls
                                else unselect (CANDIDATES_DATA s) (selectedLayer s) ls)),
       selectedLayer := Some t,
       paint_order := filter (\<lambda>j. j \<noteq> t) (paint_order s) @ [t]\<rparr>"

definition members :: "(string \<times> feature list) list \<Rightarrow> string \<Rightarrow> feature list" where
  "members tbl k = (case map_of tbl k of None \<Rightarrow> [] | Some fs \<Rightarrow> fs)"

text \<open>A load fails when the fetch of the candidate table is rejected, answers with a
  status that is not ok or with a body that does not parse, or when the feature
  collection is not defined.\<close>

fun fetch_failed :: "fetch_result \<Rightarrow> bool" where
  "fetch_failed Rejected = True"
| "fetch_failed (Response ok body) = (\<not> ok \<or> body = None)"

definition load_failed :: "fetch_result \<Rightarrow> feature list option \<Rightarrow> bool" where
  "load_failed fetched election_data = (fetch_failed fetched \<or> election_data = None)"

section \<open>Sample data\<close>

definition sample_candidates :: "(string \<times> candidate_data) list" where
  "sample_candidates =
     [(''13001'', \<lparr>cd_name = ''Tokyo 1'', outlook = JNum 4,
         candidates = Some [\<lparr>name = ''A'', party = ''P'', status = status_incumbent\<rparr>]\<rparr>),
      (''13002'', \<lparr>cd_name = ''Tokyo 2'', outlook = JNum 2, candidates = Some []\<rparr>),
      (''14001'', \<lparr>cd_name = ''Kanagawa 1'', outlook = JNum 5, candidates = None\<rparr>)]"

definition sample_features :: "feature list" where
  "sample_features =
     [\<lparr>ken = JNum 13, ku = JNum 1, kucode = JStr ''13001'',
       geometry = [(35.6, 139.7), (35.7, 139.8)]\<rparr>,
      \<lparr>ken = JNum 13, ku = JNum 2, kucode = JStr ''13002'', geometry = [(35.5, 139.6)]\<rparr>,
      \<lparr>ken = JNum 14, ku = JNum 1, kucode = JStr ''14001'',
       geometry = [(35.4, 139.5), (35.3, 139.4)]\<rparr>]"

definition sample_loaded :: app_state where
  "sample_loaded = boot (Response True (Some sample_candidates)) (Some sample_features)"


section \<open>Selecting a layer\<close>

text \<open>An event selects layer \<open>i\<close> of the list when it is a click on that layer, or the
  choice in the district selector of a code whose target is that layer.\<close>

fun selects :: "layer list \<Rightarrow> nat \<Rightarrow> event \<Rightarrow> bool" where
  "selects ls i (Click j) = (j = i)"
| "selects ls i (DistrictChange v) = (v \<noteq> [] \<and> find_target ls (JStr v) = Some i)"
| "selects ls i e = False"

text \<open>The sample after prefecture \<^verbatim>\<open>13\<close> has been chosen in the prefecture selector.\<close>

definition sample_zoomed :: app_state where
  "sample_zoomed = run [PrefectureChange ''13''] sample_loaded"



section \<open>Bounds tables\<close>


lemma map_of_set_prop: "map_of (set_prop k v tbl) = (map_of tbl)(k \<mapsto> v)"
  by (induction tbl) (auto simp: fun_eq_iff)

lemma keys_set_prop: "fst ` set (set_prop k v tbl) = insert k (fst ` set tbl)"
  by (simp add: dom_map_of_conv_image_fst [symmetric] map_of_set_prop)

lemma distinct_set_prop: "distinct (map fst tbl) \<Longrightarrow> distinct (map fst (set_prop k v tbl))"
proof (induction tbl)
  case Nil
  then show ?case by simp
next
  case (Cons p tbl)
  obtain k' v' where p: "p = (k', v')" by (cases p)
  show ?case
  proof (cases "k' = k")
    case True
    with Cons.prems p show ?thesis by simp
  next
    case False
    have "k' \<notin> set (map fst (set_prop k v tbl))"
      using Cons.prems p False by (simp add: keys_set_prop)
    with Cons p False show ?thesis by simp
  qed
qed

lemma map_of_push_feature:
  "map_of (push_feature k f tbl) = (map_of tbl)(k \<mapsto> members tbl k @ [f])"
  by (simp add: push_feature_def members_def map_of_set_prop split: option.splits)

lemma distinct_push_feature:
  "distinct (map fst tbl) \<Longrightarrow> distinct (map fst (push_feature k f tbl))"
  by (simp add: push_feature_def distinct_set_prop split: option.splits)

lemma fold_classify_fst:
  "fst (fold classify fs tbls) = fold (\<lambda>f. push_feature (to_string (ken f)) f) fs (fst tbls)"
  by (induction fs arbitrary: tbls) (simp_all add: classify_def)

lemma fold_classify_snd:
  "snd (fold classify fs tbls) = fold (\<lambda>f. push_feature (to_string (kucode f)) f) fs (snd tbls)"
  by (induction fs arbitrary: tbls) (simp_all add: classify_def)

lemma distinct_fold_push:
  "distinct (map fst tbl) \<Longrightarrow> distinct (map fst (fold (\<lambda>f. push_feature (key f) f) fs tbl))"
  by (induction fs arbitrary: tbl) (simp_all add: distinct_push_feature)

lemma member_fold_push:
  "f \<in> set fs \<Longrightarrow>
   \<exists>g. map_of (fold (\<lambda>f. push_feature (key f) f) fs tbl) (key f) = Some g \<and> f \<in> set g"
proof (induction fs arbitrary: tbl rule: rev_induct)
  case Nil
  then show ?case by simp
next
  case (snoc x xs)
  show ?case
  proof (cases "f = x")
    case True
    then show ?thesis by (simp add: map_of_push_feature)
  next
    case False
    with snoc.prems have "f \<in> set xs" by simp
    from snoc.IH [OF this, of tbl] obtain g where
      g: "map_of (fold (\<lambda>f. push_feature (key f) f) xs tbl) (key f) = Some g" "f \<in> set g"
      by blast
    then show ?thesis
      by (auto simp: map_of_push_feature members_def)
  qed
qed

lemma encloses_refl: "encloses b b"
  by (cases b) simp_all

lemma encloses_trans: "encloses a b \<Longrightarrow> encloses b c \<Longrightarrow> encloses a c"
  by (cases a; cases b; cases c) auto

lemma encloses_extend_this: "encloses (extend_bounds x b) b"
  by (cases x; cases b) auto

lemma encloses_extend_arg: "encloses (extend_bounds x b) x"
  by (cases x; cases b) auto

lemma encloses_fold_acc: "encloses (fold (\<lambda>f bounds. extend_bounds (getBounds f) bounds) fs b) b"
proof (induction fs arbitrary: b)
  case Nil
  then show ?case by (simp add: encloses_refl)
next
  case (Cons x xs)
  have "encloses (fold (\<lambda>f bounds. extend_bounds (getBounds f) bounds) xs (extend_bounds (getBounds x) b))
          (extend_bounds (getBounds x) b)"
    by (rule Cons.IH)
  then show ?case
    using encloses_extend_this encloses_trans by fastforce
qed

lemma encloses_fold_member:
  "f \<in> set fs \<Longrightarrow> encloses (fold (\<lambda>f bounds. extend_bounds (getBounds f) bounds) fs b) (getBounds f)"
proof (induction fs arbitrary: b)
  case Nil
  then show ?case by simp
next
  case (Cons x xs)
  show ?case
  proof (cases "f = x")
    case True
    have "encloses (fold (\<lambda>f bounds. extend_bounds (getBounds f) bounds) xs (extend_bounds (getBounds x) b))
            (extend_bounds (getBounds x) b)"
      by (rule encloses_fold_acc)
    with True show ?thesis
      using encloses_extend_arg encloses_trans by fastforce
  next
    case False
    with Cons show ?thesis by simp
  qed
qed

lemma group_bounds_member: "f \<in> set fs \<Longrightarrow> encloses (group_bounds fs) (getBounds f)"
  by (simp add: group_bounds_def encloses_fold_member)

lemma map_of_assign_bounds:
  "distinct (map fst groups) \<Longrightarrow>
   map_of (assign_bounds groups tbl) k =
     (case map_of groups k of None \<Rightarrow> map_of tbl k | Some fs \<Rightarrow> Some (group_bounds fs))"
  unfolding assign_bounds_def
proof (induction groups arbitrary: tbl)
  case Nil
  then show ?case by simp
next
  case (Cons p groups)
  obtain k' fs' where p: "p = (k', fs')" by (cases p)
  from Cons.prems p have d: "distinct (map fst groups)" and n: "k' \<notin> fst ` set groups" by auto
  from n have "map_of groups k' = None" by (simp add: map_of_eq_None_iff)
  then show ?case
    using Cons.IH [OF d] p by (auto simp: map_of_set_prop split: option.splits)
qed

lemma prefecture_bounds_lookup:
  assumes "f \<in> set fs"
  shows "\<exists>b. map_of (prefectureBounds (calculateBounds fs s)) (to_string (ken f)) = Some b
            \<and> encloses b (getBounds f)"
proof -
  let ?groups = "fold (\<lambda>f. push_feature (to_string (ken f)) f) fs []"
  have d: "distinct (map fst ?groups)" by (rule distinct_fold_push) simp
  from member_fold_push [OF assms, of "\<lambda>f. to_string (ken f)" "[]"] obtain g where
    g: "map_of ?groups (to_string (ken f)) = Some g" "f \<in> set g" by blast
  have "map_of (prefectureBounds (calculateBounds fs s)) (to_string (ken f)) = Some (group_bounds g)"
    using g(1) by (simp add: calculateBounds_def Let_def fold_classify_fst map_of_assign_bounds [OF d])
  with group_bounds_member [OF g(2)] show ?thesis by simp
qed

lemma district_bounds_lookup:
  assumes "f \<in> set fs"
  shows "\<exists>b. map_of (districtBounds (calculateBounds fs s)) (to_string (kucode f)) = Some b
            \<and> encloses b (getBounds f)"
proof -
  let ?groups = "fold (\<lambda>f. push_feature (to_string (kucode f)) f) fs []"
  have d: "distinct (map fst ?groups)" by (rule distinct_fold_push) simp
  from member_fold_push [OF assms, of "\<lambda>f. to_string (kucode f)" "[]"] obtain g where
    g: "map_of ?groups (to_string (kucode f)) = Some g" "f \<in> set g" by blast
  have "map_of (districtBounds (calculateBounds fs s)) (to_string (kucode f)) = Some (group_bounds g)"
    using g(1) by (simp add: calculateBounds_def Let_def fold_classify_snd map_of_assign_bounds [OF d])
  with group_bounds_member [OF g(2)] show ?thesis by simp
qed

lemma contains_extend_point_acc:
  "contains_point acc p \<Longrightarrow> contains_point (extend_point q acc) p"
  by (cases acc; cases p; cases q) auto

lemma contains_extend_point_self: "contains_point (extend_point p acc) p"
  by (cases acc; cases p) auto

lemma contains_fold_acc:
  "contains_point acc p \<Longrightarrow> contains_point (fold extend_point ps acc) p"
  by (induction ps arbitrary: acc) (simp_all add: contains_extend_point_acc)

lemma contains_fold_member:
  "p \<in> set ps \<Longrightarrow> contains_point (fold extend_point ps acc) p"
proof (induction ps arbitrary: acc)
  case Nil
  then show ?case by simp
next
  case (Cons q ps)
  show ?case
  proof (cases "p = q")
    case True
    then show ?thesis by (simp add: contains_fold_acc contains_extend_point_self)
  next
    case False
    with Cons show ?thesis by simp
  qed
qed

lemma extend_bounds_None [simp]: "extend_bounds x None = x"
  by (cases x) simp_all

lemma getBounds_contains: "p \<in> set (geometry f) \<Longrightarrow> contains_point (getBounds f) p"
  by (simp add: getBounds_def contains_fold_member)

lemma encloses_contains: "encloses bo e \<Longrightarrow> contains_point e p \<Longrightarrow> contains_point bo p"
  by (cases bo; cases e; cases p) auto

lemma least_extend_point:
  "encloses (Some c) acc \<Longrightarrow> contains_point (Some c) q \<Longrightarrow> encloses (Some c) (extend_point q acc)"
  by (cases acc; cases q) auto

lemma least_fold_points:
  "encloses (Some c) acc \<Longrightarrow> \<forall>p \<in> set ps. contains_point (Some c) p \<Longrightarrow>
   encloses (Some c) (fold extend_point ps acc)"
  by (induction ps arbitrary: acc) (simp_all add: least_extend_point)

lemma getBounds_least:
  "\<forall>p \<in> set (geometry f). contains_point (Some c) p \<Longrightarrow> encloses (Some c) (getBounds f)"
  by (simp add: getBounds_def least_fold_points)

lemma least_extend_bounds:
  "encloses (Some c) acc \<Longrightarrow> encloses (Some c) x \<Longrightarrow> encloses (Some c) (extend_bounds x acc)"
  by (cases acc; cases x) auto

lemma least_fold_bounds:
  "encloses (Some c) acc \<Longrightarrow> \<forall>f \<in> set fs. encloses (Some c) (getBounds f) \<Longrightarrow>
   encloses (Some c) (fold (\<lambda>f bounds. extend_bounds (getBounds f) bounds) fs acc)"
  by (induction fs arbitrary: acc) (simp_all add: least_extend_bounds)

lemma group_bounds_least:
  "\<forall>f \<in> set g. \<forall>p \<in> set (geometry f). contains_point (Some c) p \<Longrightarrow>
   encloses (Some c) (group_bounds g)"
  by (simp add: group_bounds_def least_fold_bounds getBounds_least)

lemma group_fold_push:
  "map_of (fold (\<lambda>f. push_feature (key f) f) fs tbl) k = Some g \<Longrightarrow>
   set g \<subseteq> set (members tbl k) \<union> {f \<in> set fs. key f = k}"
proof (induction fs arbitrary: g rule: rev_induct)
  case Nil
  then show ?case by (simp add: members_def)
next
  case (snoc x xs)
  let ?t = "fold (\<lambda>f. push_feature (key f) f) xs tbl"
  show ?case
  proof (cases "key x = k")
    case True
    with snoc.prems have g: "g = members ?t k @ [x]" by (simp add: map_of_push_feature)
    have "set (members ?t k) \<subseteq> set (members tbl k) \<union> {f \<in> set xs. key f = k}"
    proof (cases "map_of ?t k")
      case None
      then show ?thesis by (simp add: members_def)
    next
      case (Some h)
      from snoc.IH [OF Some] Some show ?thesis by (simp add: members_def)
    qed
    with g True show ?thesis by auto
  next
    case False
    with snoc.prems have "map_of ?t k = Some g" by (simp add: map_of_push_feature)
    from snoc.IH [OF this] show ?thesis by auto
  qed
qed

lemma prefecture_bounds_exact:
  assumes "f \<in> set fs"
  shows "\<exists>g. map_of (prefectureBounds (calculateBounds fs s)) (to_string (ken f)) = Some (group_bounds g) \<and>
             f \<in> set g \<and> set g \<subseteq> {h \<in> set fs. to_string (ken h) = to_string (ken f)}"
proof -
  let ?groups = "fold (\<lambda>f. push_feature (to_string (ken f)) f) fs []"
  have d: "distinct (map fst ?groups)" by (rule distinct_fold_push) simp
  from member_fold_push [OF assms, of "\<lambda>f. to_string (ken f)" "[]"] obtain g where
    g: "map_of ?groups (to_string (ken f)) = Some g" "f \<in> set g" by blast
  have "map_of (prefectureBounds (calculateBounds fs s)) (to_string (ken f)) = Some (group_bounds g)"
    using g(1) by (simp add: calculateBounds_def Let_def fold_classify_fst map_of_assign_bounds [OF d])
  moreover from group_fold_push [OF g(1)] have
    "set g \<subseteq> {h \<in> set fs. to_string (ken h) = to_string (ken f)}"
    by (simp add: members_def)
  ultimately show ?thesis using g(2) by blast
qed

lemma district_bounds_exact:
  assumes "f \<in> set fs"
  shows "\<exists>g. map_of (districtBounds (calculateBounds fs s)) (to_string (kucode f)) = Some (group_bounds g) \<and>
             f \<in> set g \<and> set g \<subseteq> {h \<in> set fs. to_string (kucode h) = to_string (kucode f)}"
proof -
  let ?groups = "fold (\<lambda>f. push_feature (to_string (kucode f)) f) fs []"
  have d: "distinct (map fst ?groups)" by (rule distinct_fold_push) simp
  from member_fold_push [OF assms, of "\<lambda>f. to_string (kucode f)" "[]"] obtain g where
    g: "map_of ?groups (to_string (kucode f)) = Some g" "f \<in> set g" by blast
  have "map_of (districtBounds (calculateBounds fs s)) (to_string (kucode f)) = Some (group_bounds g)"
    using g(1) by (simp add: calculateBounds_def Let_def fold_classify_snd map_of_assign_bounds [OF d])
  moreover from group_fold_push [OF g(1)] have
    "set g \<subseteq> {h \<in> set fs. to_string (kucode h) = to_string (kucode f)}"
    by (simp add: members_def)
  ultimately show ?thesis using g(2) by blast
qed

lemma group_bounds_positions:
  assumes "f \<in> set g" "p \<in> set (geometry f)"
  shows "contains_point (group_bounds g) p"
  using encloses_contains [OF group_bounds_member [OF assms(1)] getBounds_contains [OF assms(2)]] .

section \<open>Evaluating the sample\<close>

lemmas load_defs =
  boot_def setupEventListeners_def initSelectors_def loadElectionData_def console_error_def
  initMap_def initial_state_def addGeoJSONLayer_def calculateBounds_def classify_def
  push_feature_def assign_bounds_def group_bounds_def getBounds_def onEachFeature_def

lemmas style_defs =
  getFeatureStyle_def getDistrictName_def outlook_for_def default_outlook_def js_or_def
  OUTLOOK_COLORS_def OUTLOOK_LABELS_def show_int_def show_nat.simps digit_char_def

lemma sample_loaded_candidates: "CANDIDATES_DATA sample_loaded = sample_candidates"
  by (simp add: sample_loaded_def load_defs Let_def)

section \<open>Outlook of a district without candidate data\<close>

lemma absent_code_fill_undefined:
  "map_of cdata (to_string (kucode f)) = None \<Longrightarrow> fillColor (getFeatureStyle cdata f) = None"
  by (simp add: getFeatureStyle_def outlook_for_def default_outlook_def OUTLOOK_COLORS_def js_or_def)

text \<open>
  C1. The claim: a district code absent from the candidate table resolves to level 3, the
  purple \<^verbatim>\<open>#9333ea\<close> and its label. The code falls back to the key \<^verbatim>\<open>'competitive'\<close>,
  which neither table has: for the code \<^verbatim>\<open>99999\<close>, absent from the sample table, the
  fill colour and the badge text are undefined and the badge class is
  \<^verbatim>\<open>outlook-badge competitive\<close>, while level 3 has the colour \<^verbatim>\<open>#9333ea\<close>. Nothing is
  thrown.
\<close>

theorem unknown_district_outlook_undefined:
  "fillColor (getFeatureStyle sample_candidates
      \<lparr>ken = JNum 99, ku = JNum 9, kucode = JStr ''99999'', geometry = []\<rparr>) = None \<and>
   district_outlook_text (showDistrictInfo (JNum 99) (JNum 9) (JStr ''99999'') sample_loaded) = None \<and>
   district_outlook_class (showDistrictInfo (JNum 99) (JNum 9) (JStr ''99999'') sample_loaded) =
     ''outlook-badge competitive'' \<and>
   map_of OUTLOOK_COLORS ''3'' = Some ''#9333ea''"
  by (simp add: showDistrictInfo_def Let_def sample_loaded_candidates sample_candidates_def style_defs)

section \<open>Candidate list of the side panel\<close>

text \<open>
  C2, as stated, fails: the record of district \<^verbatim>\<open>13002\<close> in the sample has an empty
  candidate list, and the panel then shows no card at all, not the placeholder.
\<close>

theorem empty_candidate_list_shows_no_placeholder:
  "map_of sample_candidates ''13002'' =
     Some \<lparr>cd_name = ''Tokyo 2'', outlook = JNum 2, candidates = Some []\<rparr> \<and>
   candidates_list (showDistrictInfo (JNum 13) (JNum 2) (JStr ''13002'') sample_loaded) = [] \<and>
   candidates_list (showDistrictInfo (JNum 13) (JNum 2) (JStr ''13002'') sample_loaded) \<noteq>
     [no_information_card]"
  by (simp add: showDistrictInfo_def Let_def sample_loaded_candidates sample_candidates_def)

text \<open>
  C2, amended. When the district has no candidate record, or its record has no
  \<^verbatim>\<open>candidates\<close> property, the candidate list of the panel is exactly the one placeholder
  card; when the record has a list, the panel shows one card per candidate, in order, and
  so none for an empty list. In every case the panel is opened, and rendering cannot
  fail.
\<close>

theorem panel_candidate_list:
  "(map_of (CANDIDATES_DATA s) (to_string c) = None \<or>
    (\<exists>d. map_of (CANDIDATES_DATA s) (to_string c) = Some d \<and> candidates d = None)
    \<longrightarrow> candidates_list (showDistrictInfo k n c s) = [no_information_card]) \<and>
   (\<forall>d cs. map_of (CANDIDATES_DATA s) (to_string c) = Some d \<and> candidates d = Some cs
    \<longrightarrow> candidates_list (showDistrictInfo k n c s) = map candidate_card cs) \<and>
   sidebar_open (showDistrictInfo k n c s) \<and> overlay_visible (showDistrictInfo k n c s)"
  by (auto simp: showDistrictInfo_def Let_def)

theorem panel_candidate_list_witness:
  "map_of (CANDIDATES_DATA sample_loaded) (to_string (JStr ''99999'')) = None \<and>
   candidates_list (showDistrictInfo (JNum 99) (JNum 9) (JStr ''99999'') sample_loaded) =
     [no_information_card] \<and>
   map_of (CANDIDATES_DATA sample_loaded) (to_string (JStr ''14001'')) =
     Some \<lparr>cd_name = ''Kanagawa 1'', outlook = JNum 5, candidates = None\<rparr> \<and>
   candidates_list (showDistrictInfo (JNum 14) (JNum 1) (JStr ''14001'') sample_loaded) =
     [no_information_card] \<and>
   candidates_list (showDistrictInfo (JNum 13) (JNum 1) (JStr ''13001'') sample_loaded) =
     [candidate_card \<lparr>name = ''A'', party = ''P'', status = status_incumbent\<rparr>] \<and>
   sidebar_open (showDistrictInfo (JNum 13) (JNum 1) (JStr ''13001'') sample_loaded)"
  using panel_candidate_list [of sample_loaded "JStr ''99999''" "JNum 99" "JNum 9"]
    panel_candidate_list [of sample_loaded "JStr ''14001''" "JNum 14" "JNum 1"]
    panel_candidate_list [of sample_loaded "JStr ''13001''" "JNum 13" "JNum 1"]
  by (simp add: sample_loaded_candidates sample_candidates_def)

section \<open>A failed load\<close>

text \<open>
  C3, as stated, fails: when the fetch of the candidate table is rejected, the error is
  logged, and the selectors and listeners are registered all the same; choosing a
  prefecture then enables the district selector.
\<close>

theorem failed_load_still_wires:
  "load_failed Rejected (Some sample_features) \<and>
   console_errors (boot Rejected (Some sample_features)) = [FetchFailed] \<and>
   selectors_wired (boot Rejected (Some sample_features)) \<and>
   listeners_wired (boot Rejected (Some sample_features)) \<and>
   \<not> district_select_disabled (step (PrefectureChange ''13'') (boot Rejected (Some sample_features)))"
  by (simp add: load_failed_def load_defs step_def prefecture_change_def zoomToPrefecture_def
      updateDistrictSelect_def Let_def)

text \<open>
  C3, amended. When either source fails to load, the error is reported on the console
  (one entry), no feature layer is added and no bounds are computed, but initialisation
  is not aborted: the selectors and the listeners are registered as after a successful
  load.
\<close>

theorem failed_load_reported_not_aborted:
  assumes "load_failed fetched election_data"
  shows "length (console_errors (boot fetched election_data)) = 1 \<and>
         geojsonLayer (boot fetched election_data) = None \<and>
         prefectureBounds (boot fetched election_data) = [] \<and>
         districtBounds (boot fetched election_data) = [] \<and>
         selectors_wired (boot fetched election_data) \<and>
         listeners_wired (boot fetched election_data) \<and>
         prefecture_select_options (boot fetched election_data) = PREFECTURE_NAMES"
  using assms
  by (cases fetched)
     (auto simp: load_failed_def boot_def setupEventListeners_def initSelectors_def
        loadElectionData_def console_error_def initMap_def initial_state_def split: option.splits)

theorem failed_load_reported_not_aborted_witness:
  "load_failed (Response False None) (Some sample_features) \<and>
   console_errors (boot (Response False None) (Some sample_features)) = [CandidatesNotOk] \<and>
   geojsonLayer (boot (Response False None) (Some sample_features)) = None \<and>
   selectors_wired (boot (Response False None) (Some sample_features)) \<and>
   listeners_wired (boot (Response False None) (Some sample_features))"
proof -
  have h: "load_failed (Response False None) (Some sample_features)"
    by (simp add: load_failed_def)
  have "console_errors (boot (Response False None) (Some sample_features)) = [CandidatesNotOk]"
    by (simp add: load_defs)
  with h failed_load_reported_not_aborted [OF h] show ?thesis by simp
qed

section \<open>Bounds of prefectures and districts\<close>

text \<open>
  C9. For any two features of the collection filed under the same prefecture key, the
  prefecture table holds bounds for that key which contain every position of both
  features, hence the extents of both; these bounds are the least such: every box that
  contains all positions of the features filed under the key contains them. The same
  holds of the district table for two features with the same district key. For an empty
  collection both tables stay empty.
\<close>

theorem calculateBounds_encloses_members:
  "(\<forall>f1 \<in> set fs. \<forall>f2 \<in> set fs. to_string (ken f1) = to_string (ken f2) \<longrightarrow>
      (\<exists>b. map_of (prefectureBounds (calculateBounds fs s)) (to_string (ken f1)) = Some b \<and>
           (\<forall>p \<in> set (geometry f1) \<union> set (geometry f2). contains_point b p) \<and>
           encloses b (getBounds f1) \<and> encloses b (getBounds f2) \<and>
           (\<forall>c. (\<forall>f \<in> set fs. to_string (ken f) = to_string (ken f1) \<longrightarrow>
                    (\<forall>p \<in> set (geometry f). contains_point (Some c) p))
                \<longrightarrow> encloses (Some c) b))) \<and>
   (\<forall>f1 \<in> set fs. \<forall>f2 \<in> set fs. to_string (kucode f1) = to_string (kucode f2) \<longrightarrow>
      (\<exists>b. map_of (districtBounds (calculateBounds fs s)) (to_string (kucode f1)) = Some b \<and>
           (\<forall>p \<in> set (geometry f1) \<union> set (geometry f2). contains_point b p) \<and>
           encloses b (getBounds f1) \<and> encloses b (getBounds f2) \<and>
           (\<forall>c. (\<forall>f \<in> set fs. to_string (kucode f) = to_string (kucode f1) \<longrightarrow>
                    (\<forall>p \<in> set (geometry f). contains_point (Some c) p))
                \<longrightarrow> encloses (Some c) b))) \<and>
   prefectureBounds (calculateBounds [] (initial_state election_data)) = [] \<and>
   districtBounds (calculateBounds [] (initial_state election_data)) = []"
proof -
  have p: "\<exists>b. map_of (prefectureBounds (calculateBounds fs s)) (to_string (ken f1)) = Some b \<and>
           (\<forall>p \<in> set (geometry f1) \<union> set (geometry f2). contains_point b p) \<and>
           encloses b (getBounds f1) \<and> encloses b (getBounds f2) \<and>
           (\<forall>c. (\<forall>f \<in> set fs. to_string (ken f) = to_string (ken f1) \<longrightarrow>
                    (\<forall>p \<in> set (geometry f). contains_point (Some c) p))
                \<longrightarrow> encloses (Some c) b)"
    if m: "f1 \<in> set fs" "f2 \<in> set fs" and k: "to_string (ken f1) = to_string (ken f2)" for f1 f2
  proof -
    from prefecture_bounds_exact [OF m(1), of s] obtain g1 where g1:
      "map_of (prefectureBounds (calculateBounds fs s)) (to_string (ken f1)) = Some (group_bounds g1)"
      "f1 \<in> set g1" "set g1 \<subseteq> {h \<in> set fs. to_string (ken h) = to_string (ken f1)}"
      by blast
    from prefecture_bounds_exact [OF m(2), of s] k obtain g2 where g2:
      "map_of (prefectureBounds (calculateBounds fs s)) (to_string (ken f1)) = Some (group_bounds g2)"
      "f2 \<in> set g2"
      by auto
    from g1(1) g2(1) have e: "group_bounds g2 = group_bounds g1" by simp
    have c1: "\<forall>p \<in> set (geometry f1). contains_point (group_bounds g1) p"
      using group_bounds_positions [OF g1(2)] by blast
    have c2: "\<forall>p \<in> set (geometry f2). contains_point (group_bounds g1) p"
      using group_bounds_positions [OF g2(2)] e by auto
    have e1: "encloses (group_bounds g1) (getBounds f1)" by (rule group_bounds_member [OF g1(2)])
    have e2: "encloses (group_bounds g1) (getBounds f2)"
      using group_bounds_member [OF g2(2)] e by simp
    have l: "encloses (Some c) (group_bounds g1)"
      if "\<forall>f \<in> set fs. to_string (ken f) = to_string (ken f1) \<longrightarrow>
            (\<forall>p \<in> set (geometry f). contains_point (Some c) p)" for c
      by (rule group_bounds_least) (use that g1(3) in blast)
    from g1(1) c1 c2 e1 e2 l show ?thesis by auto
  qed
  have d: "\<exists>b. map_of (districtBounds (calculateBounds fs s)) (to_string (kucode f1)) = Some b \<and>
           (\<forall>p \<in> set (geometry f1) \<union> set (geometry f2). contains_point b p) \<and>
           encloses b (getBounds f1) \<and> encloses b (getBounds f2) \<and>
           (\<forall>c. (\<forall>f \<in> set fs. to_string (kucode f) = to_string (kucode f1) \<longrightarrow>
                    (\<forall>p \<in> set (geometry f). contains_point (Some c) p))
                \<longrightarrow> encloses (Some c) b)"
    if m: "f1 \<in> set fs" "f2 \<in> set fs" and k: "to_string (kucode f1) = to_string (kucode f2)" for f1 f2
  proof -
    from district_bounds_exact [OF m(1), of s] obtain g1 where g1:
      "map_of (districtBounds (calculateBounds fs s)) (to_string (kucode f1)) = Some (group_bounds g1)"
      "f1 \<in> set g1" "set g1 \<subseteq> {h \<in> set fs. to_string (kucode h) = to_string (kucode f1)}"
      by blast
    from district_bounds_exact [OF m(2), of s] k obtain g2 where g2:
      "map_of (districtBounds (calculateBounds fs s)) (to_string (kucode f1)) = Some (group_bounds g2)"
      "f2 \<in> set g2"
      by auto
    from g1(1) g2(1) have e: "group_bounds g2 = group_bounds g1" by simp
    have c1: "\<forall>p \<in> set (geometry f1). contains_point (group_bounds g1) p"
      using group_bounds_positions [OF g1(2)] by blast
    have c2: "\<forall>p \<in> set (geometry f2). contains_point (group_bounds g1) p"
      using group_bounds_positions [OF g2(2)] e by auto
    have e1: "encloses (group_bounds g1) (getBounds f1)" by (rule group_bounds_member [OF g1(2)])
    have e2: "encloses (group_bounds g1) (getBounds f2)"
      using group_bounds_member [OF g2(2)] e by simp
    have l: "encloses (Some c) (group_bounds g1)"
      if "\<forall>f \<in> set fs. to_string (kucode f) = to_string (kucode f1) \<longrightarrow>
            (\<forall>p \<in> set (geometry f). contains_point (Some c) p)" for c
      by (rule group_bounds_least) (use that g1(3) in blast)
    from g1(1) c1 c2 e1 e2 l show ?thesis by auto
  qed
  have e: "prefectureBounds (calculateBounds [] (initial_state election_data)) = [] \<and>
           districtBounds (calculateBounds [] (initial_state election_data)) = []"
    by (simp add: calculateBounds_def assign_bounds_def initial_state_def)
  from p d e show ?thesis by blast
qed

theorem calculateBounds_encloses_members_witness:
  "\<lparr>ken = JNum 13, ku = JNum 1, kucode = JStr ''13001'',
     geometry = [(35.6, 139.7), (35.7, 139.8)]\<rparr> \<in> set sample_features \<and>
   \<lparr>ken = JNum 13, ku = JNum 2, kucode = JStr ''13002'', geometry = [(35.5, 139.6)]\<rparr>
     \<in> set sample_features \<and>
   (\<exists>b. map_of (prefectureBounds (calculateBounds sample_features (initial_state None))) ''13'' = Some b \<and>
       contains_point b (35.6, 139.7) \<and> contains_point b (35.7, 139.8) \<and>
       contains_point b (35.5, 139.6) \<and>
       encloses (Some \<lparr>south = 35.5, west = 139.6, north = 35.7, east = 139.8\<rparr>) b)"
proof -
  let ?f1 = "\<lparr>ken = JNum 13, ku = JNum 1, kucode = JStr ''13001'',
     geometry = [(35.6, 139.7), (35.7, 139.8)]\<rparr>"
  let ?f2 = "\<lparr>ken = JNum 13, ku = JNum 2, kucode = JStr ''13002'', geometry = [(35.5, 139.6)]\<rparr>"
  have m: "?f1 \<in> set sample_features" "?f2 \<in> set sample_features"
    by (simp_all add: sample_features_def)
  have k: "to_string (ken ?f1) = ''13''" "to_string (ken ?f2) = ''13''"
    by (simp_all add: show_int_def show_nat.simps digit_char_def)
  have c: "\<forall>f \<in> set sample_features. to_string (ken f) = to_string (ken ?f1) \<longrightarrow>
      (\<forall>p \<in> set (geometry f).
         contains_point (Some \<lparr>south = 35.5, west = 139.6, north = 35.7, east = 139.8\<rparr>) p)"
    by (simp add: sample_features_def show_int_def show_nat.simps digit_char_def)
  have kk: "to_string (ken ?f1) = to_string (ken ?f2)"
    unfolding k ..
  note t = calculateBounds_encloses_members [of sample_features "initial_state None" None,
    THEN conjunct1, THEN bspec, OF m(1), THEN bspec, OF m(2), THEN mp, OF kk]
  from t obtain b where b:
    "map_of (prefectureBounds (calculateBounds sample_features (initial_state None)))
       (to_string (ken ?f1)) = Some b"
    "\<forall>p \<in> set (geometry ?f1) \<union> set (geometry ?f2). contains_point b p"
    "\<forall>c. (\<forall>f \<in> set sample_features. to_string (ken f) = to_string (ken ?f1) \<longrightarrow>
                    (\<forall>p \<in> set (geometry f). contains_point (Some c) p))
                \<longrightarrow> encloses (Some c) b"
    by blast
  from b(1) have b1:
    "map_of (prefectureBounds (calculateBounds sample_features (initial_state None))) ''13'' = Some b"
    unfolding k .
  from b(2) have b2: "contains_point b (35.6, 139.7) \<and> contains_point b (35.7, 139.8) \<and>
       contains_point b (35.5, 139.6)"
    by simp
  from b(3) [THEN spec, THEN mp, OF c]
  have b3: "encloses (Some \<lparr>south = 35.5, west = 139.6, north = 35.7, east = 139.8\<rparr>) b" .
  from m b1 b2 b3 show ?thesis by blast
qed

section \<open>Layer lists\<close>


lemma setStyle_eq:
  "setStyle i w s = s\<lparr>geojsonLayer := map_option (mark_at i w) (geojsonLayer s)\<rparr>"
proof (cases "geojsonLayer s")
  case None
  then show ?thesis by (simp add: setStyle_def)
next
  case (Some ls)
  have "s\<lparr>geojsonLayer := Some ls\<rparr> = s" using Some by simp
  with Some show ?thesis by (cases "i < length ls") (simp_all add: setStyle_def mark_at_def not_less list_update_beyond)
qed

lemma resetStyle_eq:
  "resetStyle j s =
     (case geojsonLayer s of
        None \<Rightarrow> Thrown TypeError s
      | Some ls \<Rightarrow> Done (s\<lparr>geojsonLayer := Some (reset_at (CANDIDATES_DATA s) j ls)\<rparr>))"
proof (cases "geojsonLayer s")
  case None
  then show ?thesis by (simp add: resetStyle_def)
next
  case (Some ls)
  have "s\<lparr>geojsonLayer := Some ls\<rparr> = s" using Some by simp
  with Some show ?thesis by (cases "j < length ls") (simp_all add: resetStyle_def reset_at_def not_less list_update_beyond)
qed

lemma length_reset_at [simp]: "length (reset_at cd j ls) = length ls"
  by (simp add: reset_at_def)

lemma length_mark_at [simp]: "length (mark_at i w ls) = length ls"
  by (simp add: mark_at_def)

lemma nth_reset_at:
  "i < length ls \<Longrightarrow> reset_at cd j ls ! i =
     (if i = j then (ls ! i)\<lparr>options := getFeatureStyle cd (feature_of (ls ! i))\<rparr> else ls ! i)"
  by (simp add: reset_at_def nth_list_update)

lemma nth_mark_at:
  "i < length ls \<Longrightarrow> mark_at k w ls ! i =
     (if i = k then (ls ! i)\<lparr>options := highlight w (options (ls ! i))\<rparr> else ls ! i)"
  by (simp add: mark_at_def nth_list_update)

lemma feature_of_reset_at [simp]: "feature_of (reset_at cd j ls ! i) = feature_of (ls ! i)"
  by (cases "j < length ls") (simp_all add: reset_at_def nth_list_update not_less list_update_beyond)

lemma feature_of_mark_at [simp]: "feature_of (mark_at k w ls ! i) = feature_of (ls ! i)"
  by (cases "k < length ls") (simp_all add: mark_at_def nth_list_update not_less list_update_beyond)

lemma marked_reset_at: "marked (reset_at cd j ls) = marked ls - {j}"
  by (auto simp: marked_def nth_reset_at getFeatureStyle_def split: if_splits)

lemma marked_mark_at_3: "marked (mark_at i 3 ls) = (if i < length ls then insert i (marked ls) else marked ls)"
  by (auto simp: marked_def nth_mark_at highlight_def split: if_splits)

lemma marked_mark_at_2: "marked (mark_at i 2 ls) = marked ls - {i}"
  by (auto simp: marked_def nth_mark_at highlight_def split: if_splits)

lemma all_set_nth: "(\<forall>l \<in> set ls. P l) = (\<forall>i<length ls. P (ls ! i))"
  by (simp add: all_set_conv_all_nth)

lemma fills_ok_reset_at: "fills_ok cd ls \<Longrightarrow> fills_ok cd (reset_at cd j ls)"
  by (simp add: fills_ok_def all_set_nth nth_reset_at)

lemma fills_ok_mark_at: "fills_ok cd ls \<Longrightarrow> fills_ok cd (mark_at i w ls)"
  by (simp add: fills_ok_def all_set_nth nth_mark_at highlight_def)

lemma bounds_ok_reset_at: "bounds_ok pb ls \<Longrightarrow> bounds_ok pb (reset_at cd j ls)"
  by (simp add: bounds_ok_def all_set_nth)

lemma bounds_ok_mark_at: "bounds_ok pb ls \<Longrightarrow> bounds_ok pb (mark_at i w ls)"
  by (simp add: bounds_ok_def all_set_nth)



lemma zoomToPrefecture_eq:
  "zoomToPrefecture k s =
     (case map_of (prefectureBounds s) (to_string k) of
        None \<Rightarrow> Done s
      | Some None \<Rightarrow> Thrown BoundsNotValid s
      | Some (Some b) \<Rightarrow>
          Done (s\<lparr>viewport := Some (FitBounds b 50 10),
                  map_calls := map_calls s @ [FitBounds b 50 10],
                  currentPrefecture := Some k\<rparr>))"
  by (simp add: zoomToPrefecture_def fitBounds_def split: option.splits)

lemma length_unselect [simp]: "length (unselect cd sel ls) = length ls"
  by (simp add: unselect_def split: option.splits)

lemma feature_of_unselect [simp]: "feature_of (unselect cd sel ls ! i) = feature_of (ls ! i)"
  by (simp add: unselect_def split: option.splits)

lemma reset_selected_eq:
  assumes "geojsonLayer s = Some ls"
  shows "(case selectedLayer s of None \<Rightarrow> Done s | Some j \<Rightarrow> resetStyle j s) =
         Done (s\<lparr>geojsonLayer := Some (unselect (CANDIDATES_DATA s) (selectedLayer s) ls)\<rparr>)"
proof -
  have "s\<lparr>geojsonLayer := Some ls\<rparr> = s" using assms by simp
  then show ?thesis
    using assms by (simp add: resetStyle_eq unselect_def split: option.splits)
qed

lemma click_eq:
  assumes "geojsonLayer s = Some ls" and "i < length ls"
  shows "handle (Click i) s =
     and_then (if currentPrefecture s \<noteq> Some (ken (feature_of (ls ! i)))
               then zoomToPrefecture (ken (feature_of (ls ! i))) s else Done s)
       (\<lambda>s1. Done (entered i (mark_at i 3 (unselect (CANDIDATES_DATA s) (selectedLayer s) ls)) s1))"
proof -
  let ?k = "ken (feature_of (ls ! i))"
  have frame: "geojsonLayer s1 = Some ls \<and> selectedLayer s1 = selectedLayer s \<and>
      CANDIDATES_DATA s1 = CANDIDATES_DATA s"
    if "(if currentPrefecture s \<noteq> Some ?k then zoomToPrefecture ?k s else Done s) = Done s1" for s1
    using that assms(1) by (auto simp: zoomToPrefecture_eq split: option.splits if_splits)
  have tail: "and_then (case selectedLayer s1 of None \<Rightarrow> Done s1 | Some j \<Rightarrow> resetStyle j s1)
          (\<lambda>s2. Done (showDistrictInfo ?k (ku (feature_of (ls ! i))) (kucode (feature_of (ls ! i)))
                   (bringToFront i ((setStyle i 3 s2)\<lparr>selectedLayer := Some i\<rparr>)))) =
        Done (entered i (mark_at i 3 (unselect (CANDIDATES_DATA s) (selectedLayer s) ls)) s1)"
    if "(if currentPrefecture s \<noteq> Some ?k then zoomToPrefecture ?k s else Done s) = Done s1" for s1
  proof -
    from frame [OF that] have f: "geojsonLayer s1 = Some ls" "selectedLayer s1 = selectedLayer s"
      "CANDIDATES_DATA s1 = CANDIDATES_DATA s" by simp_all
    show ?thesis
      unfolding reset_selected_eq [OF f(1)]
      by (simp add: f setStyle_eq bringToFront_def entered_def showDistrictInfo_def Let_def)
  qed
  show ?thesis
  proof (cases "if currentPrefecture s \<noteq> Some ?k then zoomToPrefecture ?k s else Done s")
    case (Done s1)
    with tail [OF Done] show ?thesis
      using assms by (simp add: layer_at_def handleDistrictClick_def)
  next
    case (Thrown e s1)
    then show ?thesis
      using assms by (simp add: layer_at_def handleDistrictClick_def)
  qed
qed



lemma find_target_upto:
  "n \<le> length ls \<Longrightarrow>
   fold (\<lambda>i target. if kucode (feature_of (ls ! i)) = k then Some i else target) [0..<n] None = Some t
   \<Longrightarrow> t < n \<and> kucode (feature_of (ls ! t)) = k"
proof (induction n)
  case 0
  then show ?case by simp
next
  case (Suc n)
  then show ?case by (auto split: if_splits simp: less_Suc_eq)
qed

lemma find_target_Some:
  "find_target ls k = Some t \<Longrightarrow> t < length ls \<and> kucode (feature_of (ls ! t)) = k"
  unfolding find_target_def using find_target_upto [of "length ls" ls k t] by simp

lemma select_eq:
  assumes "geojsonLayer s = Some ls" and "find_target ls k = Some t"
  shows "selectDistrictByCode k s =
     (case getBounds (feature_of (ls ! t)) of
        None \<Rightarrow> Thrown BoundsNotValid (marked_state t ls s)
      | Some b \<Rightarrow>
          Done (entered t (mark_at t 3 (if selectedLayer s = Some t then ls
                                else unselect (CANDIDATES_DATA s) (selectedLayer s) ls))
                  (s\<lparr>viewport := Some (FitBounds b 50 12),
                     map_calls := map_calls s @ [FitBounds b 50 12]\<rparr>)))"
proof -
  have id: "s\<lparr>geojsonLayer := Some ls\<rparr> = s" using assms(1) by simp
  have pre: "(case selectedLayer s of None \<Rightarrow> Done s
              | Some j \<Rightarrow> (if j \<noteq> t then resetStyle j s else Done s)) =
        Done (s\<lparr>geojsonLayer := Some (if selectedLayer s = Some t then ls
                                else unselect (CANDIDATES_DATA s) (selectedLayer s) ls)\<rparr>)"
    using assms(1) id by (simp add: resetStyle_eq unselect_def split: option.splits)
  from find_target_Some [OF assms(2)] have t: "t < length ls" by simp
  show ?thesis
    unfolding selectDistrictByCode_def
    using assms t
    by (simp add: pre Let_def fitBounds_def setStyle_eq bringToFront_def entered_def
        marked_state_def showDistrictInfo_def split: option.splits)
qed

lemma clear_selection_eq:
  assumes "\<forall>j. selectedLayer s = Some j \<longrightarrow> j < length (layers s)"
  shows "clear_selection s = Done (cleared s)"
proof (cases "selectedLayer s")
  case None
  have "s\<lparr>geojsonLayer := geojsonLayer s, selectedLayer := None\<rparr> = s" using None by simp
  moreover have "map_option (unselect (CANDIDATES_DATA s) None) (geojsonLayer s) = geojsonLayer s"
    by (cases "geojsonLayer s") (simp_all add: unselect_def)
  ultimately show ?thesis using None by (simp add: clear_selection_def cleared_def)
next
  case (Some j)
  with assms have "j < length (layers s)" by simp
  then obtain ls where ls: "geojsonLayer s = Some ls" by (cases "geojsonLayer s") (simp_all add: layers_def)
  with Some show ?thesis by (simp add: clear_selection_def cleared_def resetStyle_eq unselect_def)
qed

lemma closeSidebar_eq:
  assumes "\<forall>j. selectedLayer s = Some j \<longrightarrow> j < length (layers s)"
  shows "closeSidebar s = Done (cleared (s\<lparr>sidebar_open := False, overlay_visible := False\<rparr>))"
  unfolding closeSidebar_def
  by (rule clear_selection_eq) (use assms in \<open>simp add: layers_def\<close>)

lemma cleared_cleared: "cleared (cleared s) = cleared s"
proof -
  have "map_option (unselect (CANDIDATES_DATA s) None) x = x" for x
    by (cases x) (simp_all add: unselect_def)
  then show ?thesis by (simp add: cleared_def)
qed

lemma resetView_eq:
  assumes "\<forall>j. selectedLayer s = Some j \<longrightarrow> j < length (layers s)"
  shows "resetView s =
     Done ((cleared s)\<lparr>viewport := Some (SetView JAPAN_CENTER JAPAN_ZOOM),
             map_calls := map_calls s @ [SetView JAPAN_CENTER JAPAN_ZOOM],
             currentPrefecture := None,
             sidebar_open := False, overlay_visible := False,
             prefecture_select_value := [],
             district_select_options := [([], district_placeholder_text)],
             district_select_value := [],
             district_select_disabled := True\<rparr>)"
proof -
  let ?s0 = "(setView JAPAN_CENTER JAPAN_ZOOM s)\<lparr>currentPrefecture := None\<rparr>"
  have r0: "\<forall>j. selectedLayer ?s0 = Some j \<longrightarrow> j < length (layers ?s0)"
    using assms by (simp add: setView_def layers_def)
  have c1: "clear_selection ?s0 = Done (cleared ?s0)" by (rule clear_selection_eq [OF r0])
  have r1: "\<forall>j. selectedLayer (cleared ?s0) = Some j \<longrightarrow> j < length (layers (cleared ?s0))"
    by (simp add: cleared_def)
  have c2: "closeSidebar (cleared ?s0) =
      Done (cleared ((cleared ?s0)\<lparr>sidebar_open := False, overlay_visible := False\<rparr>))"
    by (rule closeSidebar_eq [OF r1])
  have c3: "cleared ((cleared ?s0)\<lparr>sidebar_open := False, overlay_visible := False\<rparr>) =
      (cleared ?s0)\<lparr>sidebar_open := False, overlay_visible := False\<rparr>"
  proof -
    have "map_option (unselect cd None) x = x" for x and cd :: "(string \<times> candidate_data) list"
      by (cases x) (simp_all add: unselect_def)
    then show ?thesis by (simp add: cleared_def)
  qed
  show ?thesis
    unfolding resetView_def c1 and_then.simps c2 c3
    by (simp add: cleared_def setView_def)
qed



lemma marked_unselect: "marked ls \<subseteq> set_option sel \<Longrightarrow> marked (unselect cd sel ls) = {}"
  by (cases sel) (auto simp: unselect_def marked_reset_at)

lemma fills_ok_unselect: "fills_ok cd ls \<Longrightarrow> fills_ok cd (unselect cd sel ls)"
  by (cases sel) (simp_all add: unselect_def fills_ok_reset_at)

lemma bounds_ok_unselect: "bounds_ok pb ls \<Longrightarrow> bounds_ok pb (unselect cd sel ls)"
  by (cases sel) (simp_all add: unselect_def bounds_ok_reset_at)

lemma consistent_entered:
  assumes "selectors_wired s" "listeners_wired s" "i < length ls"
    and "fills_ok (CANDIDATES_DATA s) ls" "marked ls \<subseteq> {i}" "bounds_ok (prefectureBounds s) ls"
  shows "consistent (entered i ls s)"
  using assms by (simp add: consistent_def entered_def showDistrictInfo_def Let_def layers_def)

lemma consistent_marked_state:
  assumes "consistent s" "geojsonLayer s = Some ls" "t < length ls"
  shows "consistent (marked_state t ls s)"
proof -
  from assms have a: "fills_ok (CANDIDATES_DATA s) ls" "marked ls \<subseteq> set_option (selectedLayer s)"
    "bounds_ok (prefectureBounds s) ls" "selectors_wired s" "listeners_wired s"
    by (simp_all add: consistent_def layers_def)
  have "marked (mark_at t 3 (if selectedLayer s = Some t then ls
            else unselect (CANDIDATES_DATA s) (selectedLayer s) ls)) \<subseteq> {t}"
    using a(2) assms(3) by (auto simp: marked_mark_at_3 marked_unselect)
  then show ?thesis
    using a assms(3)
    by (simp add: consistent_def marked_state_def layers_def fills_ok_mark_at fills_ok_unselect
        bounds_ok_mark_at bounds_ok_unselect)
qed

lemma consistent_cleared: "consistent s \<Longrightarrow> consistent (cleared s)"
  by (cases "geojsonLayer s")
     (auto simp: consistent_def cleared_def layers_def marked_unselect fills_ok_unselect
        bounds_ok_unselect)

lemma consistent_frame:
  assumes "consistent s"
    and "selectors_wired s' = selectors_wired s" "listeners_wired s' = listeners_wired s"
    and "selectedLayer s' = selectedLayer s" "geojsonLayer s' = geojsonLayer s"
    and "CANDIDATES_DATA s' = CANDIDATES_DATA s" "prefectureBounds s' = prefectureBounds s"
  shows "consistent s'"
  using assms by (simp add: consistent_def layers_def)

lemma in_range: "consistent s \<Longrightarrow> \<forall>j. selectedLayer s = Some j \<longrightarrow> j < length (layers s)"
  by (simp add: consistent_def)

lemma consistent_mouse_over: "consistent s \<Longrightarrow> consistent (step (MouseOver i) s)"
  by (cases "geojsonLayer s")
     (auto simp: step_def layer_at_def handleMouseOver_def bringToFront_def setStyle_eq
        consistent_def layers_def marked_mark_at_2 fills_ok_mark_at bounds_ok_mark_at)

lemma consistent_mouse_out: "consistent s \<Longrightarrow> consistent (step (MouseOut i) s)"
  by (cases "geojsonLayer s")
     (auto simp: step_def layer_at_def handleMouseOut_def resetStyle_eq
        consistent_def layers_def marked_reset_at fills_ok_reset_at bounds_ok_reset_at)

lemma zoom_frame:
  "consistent s \<Longrightarrow> consistent (state_of (zoomToPrefecture k s))"
  by (auto simp: zoomToPrefecture_eq consistent_def layers_def split: option.splits)

lemma consistent_click:
  assumes "consistent s"
  shows "consistent (step (Click i) s)"
proof (cases "layer_at i s")
  case None
  with assms show ?thesis by (simp add: step_def)
next
  case (Some l)
  then obtain ls where ls: "geojsonLayer s = Some ls" "i < length ls"
    by (auto simp: layer_at_def split: option.splits if_splits)
  let ?k = "ken (feature_of (ls ! i))"
  let ?z = "if currentPrefecture s \<noteq> Some ?k then zoomToPrefecture ?k s else Done s"
  let ?ls = "mark_at i 3 (unselect (CANDIDATES_DATA s) (selectedLayer s) ls)"
  from assms ls have a: "fills_ok (CANDIDATES_DATA s) ls" "marked ls \<subseteq> set_option (selectedLayer s)"
    "bounds_ok (prefectureBounds s) ls" "selectors_wired s" "listeners_wired s"
    by (simp_all add: consistent_def layers_def)
  have m: "marked ?ls \<subseteq> {i}" using a(2) ls(2) by (simp add: marked_mark_at_3 marked_unselect)
  have z: "consistent (state_of ?z)" using assms by (simp add: zoom_frame)
  show ?thesis
  proof (cases ?z)
    case (Thrown e s1)
    with z show ?thesis unfolding step_def click_eq [OF ls] by simp
  next
    case (Done s1)
    then have f: "selectors_wired s1" "listeners_wired s1" "CANDIDATES_DATA s1 = CANDIDATES_DATA s"
      "prefectureBounds s1 = prefectureBounds s"
      using a by (auto simp: zoomToPrefecture_eq split: option.splits if_splits)
    have "consistent (entered i ?ls s1)"
      by (rule consistent_entered)
         (use f a ls m in \<open>simp_all add: fills_ok_mark_at fills_ok_unselect bounds_ok_mark_at bounds_ok_unselect\<close>)
    with Done show ?thesis unfolding step_def click_eq [OF ls] by simp
  qed
qed

lemma consistent_close: "consistent s \<Longrightarrow> consistent (state_of (closeSidebar s))"
proof -
  assume c: "consistent s"
  have "consistent (s\<lparr>sidebar_open := False, overlay_visible := False\<rparr>)"
    by (rule consistent_frame [OF c]) simp_all
  then show ?thesis
    by (simp add: closeSidebar_eq [OF in_range [OF c]] consistent_cleared)
qed

lemma consistent_reset: "consistent s \<Longrightarrow> consistent (state_of (resetView s))"
proof -
  assume c: "consistent s"
  show ?thesis
    unfolding resetView_eq [OF in_range [OF c]] state_of.simps
    by (rule consistent_frame [OF consistent_cleared [OF c]]) simp_all
qed

lemma update_frame: "consistent s \<Longrightarrow> consistent (state_of (updateDistrictSelect v s))"
  by (auto simp: updateDistrictSelect_def Let_def consistent_def layers_def split: option.splits)

lemma consistent_prefecture_change:
  assumes "consistent s"
  shows "consistent (step (PrefectureChange v) s)"
proof -
  let ?s = "s\<lparr>prefecture_select_value := v\<rparr>"
  have c: "consistent ?s" by (rule consistent_frame [OF assms]) simp_all
  have w: "selectors_wired s" using assms by (simp add: consistent_def)
  show ?thesis
  proof (cases "v = []")
    case True
    with w consistent_reset [OF c] show ?thesis by (simp add: step_def prefecture_change_def)
  next
    case False
    show ?thesis
    proof (cases "zoomToPrefecture (JStr v) ?s")
      case (Done s1)
      with zoom_frame [OF c, of "JStr v"] have "consistent s1" by simp
      from update_frame [OF this, of v] Done w False show ?thesis
        by (simp add: step_def prefecture_change_def)
    next
      case (Thrown e s1)
      with zoom_frame [OF c, of "JStr v"] w False show ?thesis
        by (simp add: step_def prefecture_change_def)
    qed
  qed
qed

lemma consistent_district_change:
  assumes "consistent s"
  shows "consistent (step (DistrictChange v) s)"
proof -
  let ?s = "s\<lparr>district_select_value := v\<rparr>"
  have c: "consistent ?s" by (rule consistent_frame [OF assms]) simp_all
  have w: "selectors_wired s" using assms by (simp add: consistent_def)
  show ?thesis
  proof (cases "v = []")
    case True
    with w c show ?thesis by (simp add: step_def district_change_def)
  next
    case False
    show ?thesis
    proof (cases "geojsonLayer ?s")
      case None
      with w c False show ?thesis by (simp add: step_def district_change_def selectDistrictByCode_def)
    next
      case (Some ls)
      show ?thesis
      proof (cases "find_target ls (JStr v)")
        case None
        with Some w c False show ?thesis by (simp add: step_def district_change_def selectDistrictByCode_def)
      next
        case t: (Some t)
        from find_target_Some [OF t] have tl: "t < length ls" by simp
        have m: "consistent (marked_state t ls ?s)" by (rule consistent_marked_state [OF c Some tl])
        show ?thesis
        proof (cases "getBounds (feature_of (ls ! t))")
          case None
          with m w False show ?thesis
            by (simp add: step_def district_change_def select_eq [OF Some t])
        next
          case b: (Some b)
          let ?ls = "mark_at t 3 (if selectedLayer ?s = Some t then ls
                                else unselect (CANDIDATES_DATA ?s) (selectedLayer ?s) ls)"
          from m have m': "fills_ok (CANDIDATES_DATA s) ?ls" "marked ?ls \<subseteq> {t}"
            "bounds_ok (prefectureBounds s) ?ls"
            by (simp_all add: consistent_def marked_state_def layers_def)
          have "consistent (entered t ?ls (?s\<lparr>viewport := Some (FitBounds b 50 12),
                     map_calls := map_calls ?s @ [FitBounds b 50 12]\<rparr>))"
            by (rule consistent_entered) (use assms m' tl in \<open>simp_all add: consistent_def\<close>)
          with b w False show ?thesis
            by (simp add: step_def district_change_def select_eq [OF Some t])
        qed
      qed
    qed
  qed
qed

lemma consistent_step: "consistent s \<Longrightarrow> consistent (step e s)"
proof (cases e)
  case (MouseOver i) then show "consistent s \<Longrightarrow> ?thesis" by (simp add: consistent_mouse_over)
next
  case (MouseOut i) then show "consistent s \<Longrightarrow> ?thesis" by (simp add: consistent_mouse_out)
next
  case (Click i) then show "consistent s \<Longrightarrow> ?thesis" by (simp add: consistent_click)
next
  case (PrefectureChange v) then show "consistent s \<Longrightarrow> ?thesis" by (simp add: consistent_prefecture_change)
next
  case (DistrictChange v) then show "consistent s \<Longrightarrow> ?thesis" by (simp add: consistent_district_change)
next
  case ResetClick then show "consistent s \<Longrightarrow> ?thesis" by (simp add: step_def consistent_reset)
next
  case SidebarCloseClick then show "consistent s \<Longrightarrow> ?thesis" by (simp add: step_def consistent_close)
next
  case OverlayClick then show "consistent s \<Longrightarrow> ?thesis" by (simp add: step_def consistent_close)
next
  case (KeyDown k) then show "consistent s \<Longrightarrow> ?thesis" by (simp add: step_def consistent_close)
next
  case (SidebarTouchEnd d m) then show "consistent s \<Longrightarrow> ?thesis" by (simp add: step_def consistent_close)
qed

lemma consistent_run: "consistent s \<Longrightarrow> consistent (run es s)"
  unfolding run_def by (induction es arbitrary: s) (simp_all add: consistent_step)

lemma consistent_boot: "consistent (boot fetched election_data)"
proof -
  have ok: "consistent (boot (Response True (Some cd)) (Some fs))" for cd fs
  proof -
    let ?s1 = "(initMap (initial_state (Some fs)))\<lparr>CANDIDATES_DATA := cd\<rparr>"
    have b: "bounds_ok (prefectureBounds (calculateBounds fs ?s1)) (map (onEachFeature cd) fs)"
      unfolding bounds_ok_def
    proof
      fix l assume "l \<in> set (map (onEachFeature cd) fs)"
      then obtain f where f: "f \<in> set fs" "l = onEachFeature cd f" by auto
      from prefecture_bounds_lookup [OF f(1), of ?s1] f(2)
      show "\<exists>b. map_of (prefectureBounds (calculateBounds fs ?s1)) (to_string (ken (feature_of l))) = Some b \<and>
         encloses b (getBounds (feature_of l))"
        by (simp add: onEachFeature_def)
    qed
    have m: "marked (map (onEachFeature cd) fs) = {}"
      by (auto simp: marked_def onEachFeature_def getFeatureStyle_def)
    have fl: "fills_ok cd (map (onEachFeature cd) fs)"
      by (simp add: fills_ok_def onEachFeature_def)
    have pb: "prefectureBounds (boot (Response True (Some cd)) (Some fs)) = prefectureBounds (calculateBounds fs ?s1)"
      by (simp add: boot_def setupEventListeners_def initSelectors_def loadElectionData_def
          addGeoJSONLayer_def initMap_def initial_state_def Let_def)
    show ?thesis
      unfolding consistent_def pb
      using b m fl
      by (simp add: boot_def setupEventListeners_def initSelectors_def loadElectionData_def
          addGeoJSONLayer_def initMap_def initial_state_def layers_def calculateBounds_def Let_def)
  qed
  have bad: "geojsonLayer s = None \<Longrightarrow> selectedLayer s = None \<Longrightarrow> selectors_wired s \<Longrightarrow>
      listeners_wired s \<Longrightarrow> consistent s" for s
    by (simp add: consistent_def layers_def marked_def fills_ok_def bounds_ok_def)
  show ?thesis
  proof (cases "\<exists>cd fs. fetched = Response True (Some cd) \<and> election_data = Some fs")
    case True
    then show ?thesis using ok by auto
  next
    case False
    show ?thesis
      by (rule bad; cases fetched; cases election_data)
         (use False in \<open>auto simp: boot_def setupEventListeners_def initSelectors_def loadElectionData_def
          console_error_def initMap_def initial_state_def split: option.splits\<close>)
  qed
qed

lemma consistent_reachable: "consistent (run es (boot fetched election_data))"
  by (rule consistent_run [OF consistent_boot])

lemma highlight_fill: "fillColor a = fillColor b \<Longrightarrow> highlight w a = highlight w b"
  by (cases a; cases b) (simp add: highlight_def)

lemma highlight_highlight: "highlight w (highlight w' a) = highlight w a"
  by (simp add: highlight_def)

lemma mark_mark: "mark_at i w (mark_at i w' ls) = mark_at i w ls"
  by (cases "i < length ls") (simp_all add: mark_at_def highlight_highlight not_less list_update_beyond)

lemma mark_reset:
  assumes "fills_ok cd ls"
  shows "mark_at i w (reset_at cd i ls) = mark_at i w ls"
proof (cases "i < length ls")
  case True
  with assms have "fillColor (getFeatureStyle cd (feature_of (ls ! i))) = fillColor (options (ls ! i))"
    by (simp add: fills_ok_def)
  from highlight_fill [OF this, of w] True show ?thesis
    by (simp add: mark_at_def reset_at_def)
next
  case False
  then show ?thesis by (simp add: mark_at_def reset_at_def not_less list_update_beyond)
qed

lemma mark_unselect_same:
  "fills_ok cd ls \<Longrightarrow> mark_at i w (unselect cd (Some i) ls) = mark_at i w ls"
  by (simp add: unselect_def mark_reset)

lemma features_mark_at [simp]: "map feature_of (mark_at i w ls) = map feature_of ls"
  by (simp add: list_eq_iff_nth_eq)

lemma features_reset_at [simp]: "map feature_of (reset_at cd j ls) = map feature_of ls"
  by (simp add: list_eq_iff_nth_eq)

lemma features_unselect [simp]: "map feature_of (unselect cd sel ls) = map feature_of ls"
  by (simp add: list_eq_iff_nth_eq)

lemma find_target_features:
  assumes "map feature_of ls' = map feature_of ls"
  shows "find_target ls' k = find_target ls k"
proof -
  from assms have l: "length ls' = length ls" by (metis length_map)
  have "feature_of (ls' ! i) = feature_of (ls ! i)" if "i < length ls" for i
    using assms that l by (metis nth_map)
  then have "fold (\<lambda>i target. if kucode (feature_of (ls' ! i)) = k then Some i else target) [0..<length ls] None =
        fold (\<lambda>i target. if kucode (feature_of (ls ! i)) = k then Some i else target) [0..<length ls] None"
    by (intro fold_cong) auto
  with l show ?thesis by (simp add: find_target_def)
qed

lemma entered_entered: "entered i ls (entered i ls s) = entered i ls s"
  by (simp add: entered_def showDistrictInfo_def Let_def)

lemma entered_fields:
  "geojsonLayer (entered i ls s) = Some ls"
  "selectedLayer (entered i ls s) = Some i"
  "CANDIDATES_DATA (entered i ls s) = CANDIDATES_DATA s"
  "currentPrefecture (entered i ls s) = currentPrefecture s"
  "prefectureBounds (entered i ls s) = prefectureBounds s"
  "viewport (entered i ls s) = viewport s"
  "map_calls (entered i ls s) = map_calls s"
  "selectors_wired (entered i ls s) = selectors_wired s"
  by (simp_all add: entered_def showDistrictInfo_def Let_def)

lemma getBounds_nonempty: "geometry f \<noteq> [] \<Longrightarrow> \<exists>b. getBounds f = Some b"
proof -
  have "\<exists>b. fold extend_point ps (Some a) = Some b" for ps a
  proof (induction ps arbitrary: a)
    case Nil then show ?case by simp
  next
    case (Cons p ps) then show ?case by (cases p) simp
  qed
  then have "\<exists>b. fold extend_point ps None = Some b" if "ps \<noteq> []" for ps
    using that by (cases ps) (auto simp: split_paired_all)
  moreover assume "geometry f \<noteq> []"
  ultimately obtain b where "fold extend_point (geometry f) None = Some b" by blast
  then show ?thesis by (simp add: getBounds_def)
qed

lemma prefecture_bounds_valid:
  assumes "consistent s" "i < length (layers s)" "geometry (feature_of (layers s ! i)) \<noteq> []"
  shows "\<exists>b. map_of (prefectureBounds s) (to_string (ken (feature_of (layers s ! i)))) = Some (Some b)"
proof -
  from assms(1) have "bounds_ok (prefectureBounds s) (layers s)" by (simp add: consistent_def)
  with nth_mem [OF assms(2)] obtain bo where bo:
    "map_of (prefectureBounds s) (to_string (ken (feature_of (layers s ! i)))) = Some bo"
    "encloses bo (getBounds (feature_of (layers s ! i)))"
    unfolding bounds_ok_def by blast
  from getBounds_nonempty [OF assms(3)] obtain b where "getBounds (feature_of (layers s ! i)) = Some b"
    by blast
  with bo(2) obtain b' where "bo = Some b'" by (cases bo) simp_all
  with bo(1) show ?thesis by simp
qed

lemma click_fixpoint:
  assumes "geojsonLayer s = Some ls" "i < length ls"
    and "currentPrefecture s = Some (ken (feature_of (ls ! i)))"
    and "selectedLayer s = Some i" "fills_ok (CANDIDATES_DATA s) ls"
    and "ls = mark_at i 3 lb" "s = entered i ls sb"
  shows "handle (Click i) s = Done s"
proof -
  have "mark_at i 3 (unselect (CANDIDATES_DATA s) (Some i) ls) = mark_at i 3 ls"
    by (rule mark_unselect_same [OF assms(5)])
  also have "\<dots> = ls" by (subst (1 2) assms(6)) (rule mark_mark)
  finally have l: "mark_at i 3 (unselect (CANDIDATES_DATA s) (selectedLayer s) ls) = ls"
    by (simp add: assms(4))
  have "entered i ls s = s" by (subst (1 2) assms(7)) (rule entered_entered)
  then show ?thesis
    unfolding click_eq [OF assms(1,2)] l using assms(3) by simp
qed

lemma click_twice:
  assumes "consistent s"
  shows "step (Click i) (step (Click i) s) = step (Click i) s"
proof (cases "layer_at i s")
  case None
  then show ?thesis by (simp add: step_def)
next
  case (Some l)
  then obtain ls where ls: "geojsonLayer s = Some ls" "i < length ls"
    by (auto simp: layer_at_def split: option.splits if_splits)
  let ?k = "ken (feature_of (ls ! i))"
  let ?L = "mark_at i 3 (unselect (CANDIDATES_DATA s) (selectedLayer s) ls)"
  from assms ls have f: "fills_ok (CANDIDATES_DATA s) ls" by (simp add: consistent_def layers_def)
  have fL: "fills_ok (CANDIDATES_DATA s) ?L" by (simp add: f fills_ok_mark_at fills_ok_unselect)
  have again: "step (Click i) (entered i ?L s1) = entered i ?L s1"
    if "currentPrefecture s1 = Some ?k" "CANDIDATES_DATA s1 = CANDIDATES_DATA s" for s1
  proof -
    have "handle (Click i) (entered i ?L s1) = Done (entered i ?L s1)"
      by (rule click_fixpoint [where ls = ?L and sb = s1 and lb = "unselect (CANDIDATES_DATA s) (selectedLayer s) ls"])
         (use that ls fL in \<open>simp_all add: entered_fields\<close>)
    then show ?thesis by (simp add: step_def)
  qed
  show ?thesis
  proof (cases "currentPrefecture s = Some ?k")
    case True
    then have "step (Click i) s = entered i ?L s"
      unfolding step_def click_eq [OF ls] by simp
    with again [of s] True show ?thesis by simp
  next
    case False
    show ?thesis
    proof (cases "map_of (prefectureBounds s) (to_string ?k)")
      case None
      from assms have "bounds_ok (prefectureBounds s) ls" using ls by (simp add: consistent_def layers_def)
      with nth_mem [OF ls(2)] None show ?thesis unfolding bounds_ok_def by fastforce
    next
      case (Some bo)
      show ?thesis
      proof (cases bo)
        case None
        with Some False have "step (Click i) s = s"
          unfolding step_def click_eq [OF ls] by (simp add: zoomToPrefecture_eq)
        then show ?thesis by simp
      next
        case b: (Some b)
        let ?s1 = "s\<lparr>viewport := Some (FitBounds b 50 10),
                  map_calls := map_calls s @ [FitBounds b 50 10],
                  currentPrefecture := Some ?k\<rparr>"
        from Some b False have "step (Click i) s = entered i ?L ?s1"
          unfolding step_def click_eq [OF ls] by (simp add: zoomToPrefecture_eq)
        with again [of ?s1] show ?thesis by simp
      qed
    qed
  qed
qed

lemma district_change_twice:
  assumes "consistent s"
  shows "step (DistrictChange v) (step (DistrictChange v) s) =
         (step (DistrictChange v) s)\<lparr>map_calls := map_calls (step (DistrictChange v) (step (DistrictChange v) s))\<rparr>"
proof -
  let ?s = "s\<lparr>district_select_value := v\<rparr>"
  have w: "selectors_wired s" using assms by (simp add: consistent_def)
  have id: "r\<lparr>map_calls := map_calls r\<rparr> = r" for r :: app_state by simp
  show ?thesis
  proof (cases "v = []")
    case True
    with w show ?thesis by (simp add: step_def district_change_def)
  next
    case False
    show ?thesis
    proof (cases "geojsonLayer s")
      case None
      with w False show ?thesis by (simp add: step_def district_change_def selectDistrictByCode_def)
    next
      case (Some ls)
      then have g: "geojsonLayer ?s = Some ls" by simp
      from assms Some have f: "fills_ok (CANDIDATES_DATA s) ls" by (simp add: consistent_def layers_def)
      show ?thesis
      proof (cases "find_target ls (JStr v)")
        case None
        with Some w False show ?thesis by (simp add: step_def district_change_def selectDistrictByCode_def)
      next
        case t: (Some t)
        from find_target_Some [OF t] have tl: "t < length ls" by simp
        let ?L = "mark_at t 3 (if selectedLayer s = Some t then ls
                                else unselect (CANDIDATES_DATA s) (selectedLayer s) ls)"
        have tL: "find_target ?L (JStr v) = Some t"
          using t by (simp add: find_target_features [of ?L ls])
        have LL: "mark_at t 3 ?L = ?L" by (simp add: mark_mark)
        have fb: "feature_of (?L ! t) = feature_of (ls ! t)" by simp
        show ?thesis
        proof (cases "getBounds (feature_of (ls ! t))")
          case None
          have s1: "step (DistrictChange v) s = marked_state t ls ?s"
            using None w False by (simp add: step_def district_change_def select_eq [OF g t])
          have g1: "geojsonLayer (marked_state t ls ?s) = Some ?L" by (simp add: marked_state_def)
          have "step (DistrictChange v) (marked_state t ls ?s) =
                marked_state t ?L ((marked_state t ls ?s)\<lparr>district_select_value := v\<rparr>)"
            using None w False fb
            by (simp add: step_def district_change_def select_eq [OF _ tL] marked_state_def)
          also have "\<dots> = marked_state t ls ?s"
            by (simp add: marked_state_def mark_mark)
          finally show ?thesis by (simp add: s1)
        next
          case b: (Some b)
          let ?s1 = "?s\<lparr>viewport := Some (FitBounds b 50 12),
                     map_calls := map_calls s @ [FitBounds b 50 12]\<rparr>"
          have s1: "step (DistrictChange v) s = entered t ?L ?s1"
            using b w False by (simp add: step_def district_change_def select_eq [OF g t])
          have "step (DistrictChange v) (entered t ?L ?s1) =
                entered t ?L ((entered t ?L ?s1)\<lparr>viewport := Some (FitBounds b 50 12),
                     map_calls := map_calls s @ [FitBounds b 50 12, FitBounds b 50 12]\<rparr>)"
            using b w False fb
            by (simp add: step_def district_change_def select_eq [OF _ tL] entered_def
                showDistrictInfo_def Let_def mark_mark)
          also have "\<dots> = (entered t ?L ?s1)\<lparr>map_calls := map_calls s @ [FitBounds b 50 12, FitBounds b 50 12]\<rparr>"
            by (simp add: entered_def showDistrictInfo_def Let_def)
          finally show ?thesis by (simp add: s1)
        qed
      qed
    qed
  qed
qed

lemma click_result:
  assumes "consistent s" "geojsonLayer s = Some ls" "i < length ls"
    and "geometry (feature_of (ls ! i)) \<noteq> []"
  obtains b where
    "map_of (prefectureBounds s) (to_string (ken (feature_of (ls ! i)))) = Some (Some b)"
    "step (Click i) s =
       entered i (mark_at i 3 (unselect (CANDIDATES_DATA s) (selectedLayer s) ls))
         (if currentPrefecture s = Some (ken (feature_of (ls ! i))) then s
          else s\<lparr>viewport := Some (FitBounds b 50 10),
                 map_calls := map_calls s @ [FitBounds b 50 10],
                 currentPrefecture := Some (ken (feature_of (ls ! i)))\<rparr>)"
proof -
  from assms(2) have l: "layers s = ls" by (simp add: layers_def)
  from prefecture_bounds_valid [OF assms(1)] assms(3,4) l obtain b where
    b: "map_of (prefectureBounds s) (to_string (ken (feature_of (ls ! i)))) = Some (Some b)"
    by auto
  have "step (Click i) s =
       entered i (mark_at i 3 (unselect (CANDIDATES_DATA s) (selectedLayer s) ls))
         (if currentPrefecture s = Some (ken (feature_of (ls ! i))) then s
          else s\<lparr>viewport := Some (FitBounds b 50 10),
                 map_calls := map_calls s @ [FitBounds b 50 10],
                 currentPrefecture := Some (ken (feature_of (ls ! i)))\<rparr>)"
    unfolding step_def click_eq [OF assms(2,3)] using b by (simp add: zoomToPrefecture_eq)
  with b that show thesis by blast
qed

lemma dropdown_result:
  assumes "consistent s" "geojsonLayer s = Some ls" "find_target ls (JStr v) = Some t" "v \<noteq> []"
    and "geometry (feature_of (ls ! t)) \<noteq> []"
  obtains b where
    "getBounds (feature_of (ls ! t)) = Some b"
    "step (DistrictChange v) s =
       entered t (mark_at t 3 (unselect (CANDIDATES_DATA s) (selectedLayer s) ls))
         (s\<lparr>district_select_value := v, viewport := Some (FitBounds b 50 12),
            map_calls := map_calls s @ [FitBounds b 50 12]\<rparr>)"
proof -
  let ?s = "s\<lparr>district_select_value := v\<rparr>"
  from getBounds_nonempty [OF assms(5)] obtain b where b: "getBounds (feature_of (ls ! t)) = Some b"
    by blast
  from assms(1,2) have f: "fills_ok (CANDIDATES_DATA s) ls" and w: "selectors_wired s"
    by (simp_all add: consistent_def layers_def)
  have g: "geojsonLayer ?s = Some ls" using assms(2) by simp
  have m: "mark_at t 3 (if selectedLayer s = Some t then ls
              else unselect (CANDIDATES_DATA s) (selectedLayer s) ls) =
           mark_at t 3 (unselect (CANDIDATES_DATA s) (selectedLayer s) ls)"
    using mark_unselect_same [OF f, of t 3] by auto
  have "step (DistrictChange v) s =
       entered t (mark_at t 3 (unselect (CANDIDATES_DATA s) (selectedLayer s) ls))
         (s\<lparr>district_select_value := v, viewport := Some (FitBounds b 50 12),
            map_calls := map_calls s @ [FitBounds b 50 12]\<rparr>)"
    using b w assms(4) f
    by (simp add: step_def district_change_def select_eq [OF g assms(3)] mark_unselect_same)
  with b that show thesis by blast
qed

lemma select_layers:
  assumes "consistent s" "i < length (layers s)" "geometry (feature_of (layers s ! i)) \<noteq> []"
    and "selects (layers s) i e"
  shows "layers (step e s) = mark_at i 3 (unselect (CANDIDATES_DATA s) (selectedLayer s) (layers s)) \<and>
         selectedLayer (step e s) = Some i \<and> CANDIDATES_DATA (step e s) = CANDIDATES_DATA s"
proof -
  from assms(2) obtain ls where ls: "geojsonLayer s = Some ls" "layers s = ls"
    by (cases "geojsonLayer s") (simp_all add: layers_def)
  show ?thesis
  proof (cases e)
    case (Click j)
    with assms(4) have "e = Click i" by simp
    moreover from click_result [OF assms(1) ls(1)] assms(2,3) ls(2) obtain b where
      "step (Click i) s =
       entered i (mark_at i 3 (unselect (CANDIDATES_DATA s) (selectedLayer s) ls))
         (if currentPrefecture s = Some (ken (feature_of (ls ! i))) then s
          else s\<lparr>viewport := Some (FitBounds b 50 10),
                 map_calls := map_calls s @ [FitBounds b 50 10],
                 currentPrefecture := Some (ken (feature_of (ls ! i)))\<rparr>)"
      by auto
    ultimately show ?thesis using ls by (simp add: entered_fields layers_def)
  next
    case (DistrictChange v)
    with assms(4) ls have v: "v \<noteq> []" "find_target ls (JStr v) = Some i" by simp_all
    from dropdown_result [OF assms(1) ls(1) v(2) v(1)] assms(3) ls(2) obtain b where
      "step (DistrictChange v) s =
       entered i (mark_at i 3 (unselect (CANDIDATES_DATA s) (selectedLayer s) ls))
         (s\<lparr>district_select_value := v, viewport := Some (FitBounds b 50 12),
            map_calls := map_calls s @ [FitBounds b 50 12]\<rparr>)"
      by auto
    with DistrictChange ls show ?thesis by (simp add: entered_fields layers_def)
  qed (use assms(4) in simp_all)
qed

section \<open>Effect of an event on the layers\<close>


lemma layers_upd:
  "geojsonLayer s' = map_option g (geojsonLayer s) \<Longrightarrow> g [] = [] \<Longrightarrow> layers s' = g (layers s)"
  by (cases "geojsonLayer s") (simp_all add: layers_def)

lemma mark_at_Nil [simp]: "mark_at i w [] = []"
  by (simp add: mark_at_def)

lemma reset_at_Nil [simp]: "reset_at cd i [] = []"
  by (simp add: reset_at_def)

lemma unselect_Nil [simp]: "unselect cd sel [] = []"
  by (cases sel) (simp_all add: unselect_def)

lemma mark_at_beyond: "\<not> i < length ls \<Longrightarrow> mark_at i w ls = ls"
  by (simp add: mark_at_def not_less list_update_beyond)

lemma reset_at_beyond: "\<not> i < length ls \<Longrightarrow> reset_at cd i ls = ls"
  by (simp add: reset_at_def not_less list_update_beyond)

lemma effect_mouse_over:
  "layers (step (MouseOver i) s) = mark_at i 2 (layers s) \<and>
   selectedLayer (step (MouseOver i) s) = selectedLayer s \<and>
   CANDIDATES_DATA (step (MouseOver i) s) = CANDIDATES_DATA s"
proof (cases "layer_at i s")
  case None
  then have "mark_at i 2 (layers s) = layers s"
    by (cases "geojsonLayer s") (auto simp: layer_at_def layers_def mark_at_beyond split: if_splits)
  with None show ?thesis by (simp add: step_def)
next
  case (Some l)
  have "layers (bringToFront i (setStyle i 2 s)) = mark_at i 2 (layers s)"
    by (rule layers_upd) (simp_all add: bringToFront_def setStyle_eq)
  with Some show ?thesis by (simp add: step_def handleMouseOver_def bringToFront_def setStyle_eq)
qed

lemma effect_mouse_out:
  "layers (step (MouseOut i) s) =
     (if selectedLayer s = Some i then layers s else reset_at (CANDIDATES_DATA s) i (layers s)) \<and>
   selectedLayer (step (MouseOut i) s) = selectedLayer s \<and>
   CANDIDATES_DATA (step (MouseOut i) s) = CANDIDATES_DATA s"
proof (cases "layer_at i s")
  case None
  then have "reset_at (CANDIDATES_DATA s) i (layers s) = layers s"
    by (cases "geojsonLayer s") (auto simp: layer_at_def layers_def reset_at_beyond split: if_splits)
  with None show ?thesis by (simp add: step_def)
next
  case (Some l)
  then obtain ls where ls: "geojsonLayer s = Some ls"
    by (auto simp: layer_at_def split: option.splits)
  with Some show ?thesis
    by (simp add: step_def handleMouseOut_def resetStyle_eq layers_def)
qed

lemma effect_click:
  assumes "consistent s"
  shows "CANDIDATES_DATA (step (Click i) s) = CANDIDATES_DATA s \<and>
    ((layers (step (Click i) s) = layers s \<and> selectedLayer (step (Click i) s) = selectedLayer s) \<or>
     (i < length (layers s) \<and>
      layers (step (Click i) s) = mark_at i 3 (unselect (CANDIDATES_DATA s) (selectedLayer s) (layers s)) \<and>
      selectedLayer (step (Click i) s) = Some i))"
proof (cases "layer_at i s")
  case None
  then show ?thesis by (simp add: step_def)
next
  case (Some l)
  then obtain ls where ls: "geojsonLayer s = Some ls" "i < length ls"
    by (auto simp: layer_at_def split: option.splits if_splits)
  let ?k = "ken (feature_of (ls ! i))"
  show ?thesis
  proof (cases "if currentPrefecture s \<noteq> Some ?k then zoomToPrefecture ?k s else Done s")
    case (Thrown e s1)
    then have "s1 = s" by (auto simp: zoomToPrefecture_eq split: option.splits if_splits)
    with Thrown show ?thesis unfolding step_def click_eq [OF ls] by simp
  next
    case (Done s1)
    then have "CANDIDATES_DATA s1 = CANDIDATES_DATA s"
      by (auto simp: zoomToPrefecture_eq split: option.splits if_splits)
    with Done ls show ?thesis
      unfolding step_def click_eq [OF ls] by (simp add: entered_fields layers_def)
  qed
qed

lemma effect_district_change:
  assumes "consistent s"
  shows "CANDIDATES_DATA (step (DistrictChange v) s) = CANDIDATES_DATA s \<and>
    ((layers (step (DistrictChange v) s) = layers s \<and>
      selectedLayer (step (DistrictChange v) s) = selectedLayer s) \<or>
     (\<exists>t<length (layers s).
        layers (step (DistrictChange v) s) =
          mark_at t 3 (unselect (CANDIDATES_DATA s) (selectedLayer s) (layers s)) \<and>
        selectedLayer (step (DistrictChange v) s) = Some t))"
proof -
  let ?s = "s\<lparr>district_select_value := v\<rparr>"
  have w: "selectors_wired s" using assms by (simp add: consistent_def)
  show ?thesis
  proof (cases "v = [] \<or> geojsonLayer s = None")
    case True
    with w show ?thesis
      by (auto simp: step_def district_change_def selectDistrictByCode_def layers_def)
  next
    case False
    then obtain ls where ls: "geojsonLayer s = Some ls" and v: "v \<noteq> []" by auto
    then have g: "geojsonLayer ?s = Some ls" by simp
    from assms ls have f: "fills_ok (CANDIDATES_DATA s) ls" by (simp add: consistent_def layers_def)
    show ?thesis
    proof (cases "find_target ls (JStr v)")
      case None
      with ls w v show ?thesis
        by (simp add: step_def district_change_def selectDistrictByCode_def layers_def)
    next
      case t: (Some t)
      from find_target_Some [OF t] have tl: "t < length ls" by simp
      have "CANDIDATES_DATA (step (DistrictChange v) s) = CANDIDATES_DATA s \<and>
        layers (step (DistrictChange v) s) =
          mark_at t 3 (unselect (CANDIDATES_DATA s) (selectedLayer s) ls) \<and>
        selectedLayer (step (DistrictChange v) s) = Some t"
        using w v f
        by (cases "getBounds (feature_of (ls ! t))")
           (simp_all add: step_def district_change_def select_eq [OF g t] marked_state_def
              entered_fields layers_def mark_unselect_same)
      with tl ls show ?thesis by (auto simp: layers_def)
    qed
  qed
qed

lemma effect_close:
  assumes "consistent s"
  shows "CANDIDATES_DATA (state_of (closeSidebar s)) = CANDIDATES_DATA s \<and>
     layers (state_of (closeSidebar s)) = unselect (CANDIDATES_DATA s) (selectedLayer s) (layers s) \<and>
     selectedLayer (state_of (closeSidebar s)) = None"
proof -
  let ?s' = "cleared (s\<lparr>sidebar_open := False, overlay_visible := False\<rparr>)"
  have "layers ?s' = unselect (CANDIDATES_DATA s) (selectedLayer s) (layers s)"
    by (rule layers_upd) (simp_all add: cleared_def)
  then show ?thesis
    by (simp add: closeSidebar_eq [OF in_range [OF assms]] cleared_def)
qed

lemma effect_reset:
  assumes "consistent s"
  shows "CANDIDATES_DATA (state_of (resetView s)) = CANDIDATES_DATA s \<and>
     layers (state_of (resetView s)) = unselect (CANDIDATES_DATA s) (selectedLayer s) (layers s) \<and>
     selectedLayer (state_of (resetView s)) = None"
proof -
  have "layers (state_of (resetView s)) = unselect (CANDIDATES_DATA s) (selectedLayer s) (layers s)"
    unfolding resetView_eq [OF in_range [OF assms]] state_of.simps
    by (rule layers_upd) (simp_all add: cleared_def)
  then show ?thesis
    by (simp add: resetView_eq [OF in_range [OF assms]] cleared_def)
qed

lemma effect_prefecture_change:
  assumes "v \<noteq> []"
  shows "CANDIDATES_DATA (step (PrefectureChange v) s) = CANDIDATES_DATA s \<and>
     layers (step (PrefectureChange v) s) = layers s \<and>
     selectedLayer (step (PrefectureChange v) s) = selectedLayer s"
  using assms
  by (auto simp: step_def prefecture_change_def zoomToPrefecture_eq updateDistrictSelect_def
      Let_def layers_def split: option.splits)



lemma plain_mark2: "plain cd sel H ls \<Longrightarrow> plain cd sel (insert i H) (mark_at i 2 ls)"
  by (simp add: plain_def nth_mark_at)

lemma plain_out:
  "plain cd sel H ls \<Longrightarrow> plain cd sel (H - {i}) (if sel = Some i then ls else reset_at cd i ls)"
  by (auto simp: plain_def nth_reset_at)

lemma plain_unselect: "plain cd sel H ls \<Longrightarrow> plain cd None H (unselect cd sel ls)"
  by (cases sel) (auto simp: plain_def unselect_def nth_reset_at)

lemma plain_select: "plain cd sel H ls \<Longrightarrow> plain cd (Some i) H (mark_at i 3 (unselect cd sel ls))"
  using plain_unselect [of cd sel H ls] by (auto simp: plain_def nth_mark_at)

lemma plain_step:
  assumes "consistent s" and "plain (CANDIDATES_DATA s) (selectedLayer s) H (layers s)"
  shows "plain (CANDIDATES_DATA (step e s)) (selectedLayer (step e s)) (hover_step e H) (layers (step e s))"
proof (cases e)
  case (MouseOver i)
  with plain_mark2 [OF assms(2), of i] show ?thesis by (simp add: effect_mouse_over)
next
  case (MouseOut i)
  with plain_out [OF assms(2), of i] show ?thesis by (simp add: effect_mouse_out)
next
  case (Click i)
  with effect_click [OF assms(1), of i] assms(2) plain_select [OF assms(2), of i]
  show ?thesis by auto
next
  case (PrefectureChange v)
  show ?thesis
  proof (cases "v = []")
    case True
    from assms(1) have w: "selectors_wired s" by (simp add: consistent_def)
    let ?s = "s\<lparr>prefecture_select_value := v\<rparr>"
    have c: "consistent ?s" by (rule consistent_frame [OF assms(1)]) simp_all
    have "step e s = state_of (resetView ?s)"
      using PrefectureChange True w by (simp add: step_def prefecture_change_def)
    with effect_reset [OF c] plain_unselect [OF assms(2)] PrefectureChange
    show ?thesis by (simp add: layers_def)
  next
    case False
    with PrefectureChange effect_prefecture_change [OF False, of s] assms(2)
    show ?thesis by simp
  qed
next
  case (DistrictChange v)
  from effect_district_change [OF assms(1), of v] have
    cd: "CANDIDATES_DATA (step (DistrictChange v) s) = CANDIDATES_DATA s" by simp
  from effect_district_change [OF assms(1), of v] consider
    "layers (step (DistrictChange v) s) = layers s"
    "selectedLayer (step (DistrictChange v) s) = selectedLayer s"
    | t where "layers (step (DistrictChange v) s) =
          mark_at t 3 (unselect (CANDIDATES_DATA s) (selectedLayer s) (layers s))"
        "selectedLayer (step (DistrictChange v) s) = Some t"
    by blast
  then show ?thesis
  proof cases
    case 1
    with DistrictChange cd assms(2) show ?thesis by simp
  next
    case 2
    with DistrictChange cd plain_select [OF assms(2), of t] show ?thesis by simp
  qed
next
  case ResetClick
  from assms(1) have w: "listeners_wired s" by (simp add: consistent_def)
  with ResetClick effect_reset [OF assms(1)] plain_unselect [OF assms(2)]
  show ?thesis by (simp add: step_def)
next
  case SidebarCloseClick
  from assms(1) have w: "listeners_wired s" by (simp add: consistent_def)
  with SidebarCloseClick effect_close [OF assms(1)] plain_unselect [OF assms(2)]
  show ?thesis by (simp add: step_def)
next
  case OverlayClick
  from assms(1) have w: "listeners_wired s" by (simp add: consistent_def)
  with OverlayClick effect_close [OF assms(1)] plain_unselect [OF assms(2)]
  show ?thesis by (simp add: step_def)
next
  case (KeyDown k)
  with effect_close [OF assms(1)] plain_unselect [OF assms(2)] assms(2)
  show ?thesis by (simp add: step_def)
next
  case (SidebarTouchEnd d m)
  with effect_close [OF assms(1)] plain_unselect [OF assms(2)] assms(2)
  show ?thesis by (simp add: step_def)
qed

lemma plain_run:
  "consistent s \<Longrightarrow> plain (CANDIDATES_DATA s) (selectedLayer s) H (layers s) \<Longrightarrow>
   plain (CANDIDATES_DATA (run es s)) (selectedLayer (run es s)) (fold hover_step es H) (layers (run es s))"
proof (induction es arbitrary: s H)
  case Nil
  then show ?case by (simp add: run_def)
next
  case (Cons e es)
  from Cons.IH [OF consistent_step [OF Cons.prems(1)] plain_step [OF Cons.prems]]
  show ?case by (simp add: run_def)
qed

lemma plain_boot:
  "plain (CANDIDATES_DATA (boot fetched election_data)) (selectedLayer (boot fetched election_data)) {}
     (layers (boot fetched election_data))"
  by (cases fetched; cases election_data)
     (auto simp: plain_def boot_def setupEventListeners_def initSelectors_def loadElectionData_def
        console_error_def initMap_def initial_state_def addGeoJSONLayer_def calculateBounds_def
        onEachFeature_def layers_def Let_def split: option.splits)

lemma plain_reachable:
  "plain (CANDIDATES_DATA (run es (boot fetched election_data)))
     (selectedLayer (run es (boot fetched election_data))) (hovering es)
     (layers (run es (boot fetched election_data)))"
  unfolding hovering_def by (rule plain_run [OF consistent_boot plain_boot])

section \<open>Selecting a district again, and the layer the selector finds\<close>








section \<open>Selection, reset and dismissal\<close>

lemmas handler_defs =
  run_def step_def layer_at_def prefecture_change_def district_change_def zoomToPrefecture_def
  fitBounds_def setView_def updateDistrictSelect_def collect_district_def sort_districts_def
  ku_before_def parseInt_def parseInt_string_def parse_digits_def is_digit_def digit_val_def
  digit_of_def is_space_def
  handleDistrictClick_def handleMouseOver_def handleMouseOut_def resetStyle_def setStyle_def
  highlight_def bringToFront_def showDistrictInfo_def selectDistrictByCode_def find_target_def
  resetView_def closeSidebar_def clear_selection_def

lemmas sample_defs = sample_loaded_def sample_features_def sample_candidates_def

lemma sample_loaded_reachable:
  "sample_loaded = run [] (boot (Response True (Some sample_candidates)) (Some sample_features))"
  by (simp add: run_def sample_loaded_def)

lemma sample_zoomed_reachable:
  "sample_zoomed =
     run [PrefectureChange ''13''] (boot (Response True (Some sample_candidates)) (Some sample_features))"
  by (simp add: sample_zoomed_def sample_loaded_def)

lemma sample_zoomed_layers:
  "layers sample_zoomed = map (onEachFeature sample_candidates) sample_features"
proof -
  have "layers sample_zoomed = layers sample_loaded"
    using effect_prefecture_change [of "''13''" sample_loaded]
    by (simp add: sample_zoomed_def run_def)
  then show ?thesis by (simp add: layers_def sample_loaded_def load_defs Let_def)
qed


lemma options_unselect_selected:
  "j < length ls \<Longrightarrow> options (unselect cd (Some j) ls ! j) = getFeatureStyle cd (feature_of (ls ! j))"
  by (simp add: unselect_def nth_reset_at)

lemma layers_cleared:
  "geojsonLayer s' = map_option (unselect cd sel) (geojsonLayer s) \<Longrightarrow>
   layers s' = unselect cd sel (layers s)"
  by (cases "geojsonLayer s"; cases sel) (simp_all add: layers_def unselect_def reset_at_def)

text \<open>
  C10. In every reachable state, closing the side panel by the close button, by a click
  on the overlay, by the Escape key or by a swipe of more than 100 pixels on a window of
  mobile size ends normally in the state that differs from the
  old one in four fields only: the panel and the overlay are hidden, the selected layer
  (if any) has the style of its feature again, and no layer is selected. No layer is
  marked afterwards; the zoomed prefecture, the viewport, the requests made to the map
  and both selectors are as before.
\<close>

theorem close_clears_selection_only:
  assumes "s = run es (boot fetched election_data)"
    and "e = SidebarCloseClick \<or> e = OverlayClick \<or> e = KeyDown ''Escape'' \<or>
         (\<exists>deltaY. 100 < deltaY \<and> e = SidebarTouchEnd deltaY True)"
  shows "handle e s =
           Done (s\<lparr>sidebar_open := False, overlay_visible := False,
                   geojsonLayer := map_option (unselect (CANDIDATES_DATA s) (selectedLayer s)) (geojsonLayer s),
                   selectedLayer := None\<rparr>) \<and>
         marked (layers (step e s)) = {} \<and>
         (\<forall>j. selectedLayer s = Some j \<longrightarrow>
            options (layers (step e s) ! j) =
              getFeatureStyle (CANDIDATES_DATA s) (feature_of (layers s ! j))) \<and>
         currentPrefecture (step e s) = currentPrefecture s \<and>
         viewport (step e s) = viewport s \<and> map_calls (step e s) = map_calls s \<and>
         prefecture_select_options (step e s) = prefecture_select_options s \<and>
         prefecture_select_value (step e s) = prefecture_select_value s \<and>
         district_select_options (step e s) = district_select_options s \<and>
         district_select_value (step e s) = district_select_value s \<and>
         district_select_disabled (step e s) = district_select_disabled s"
proof -
  have c: "consistent s" unfolding assms(1) by (rule consistent_reachable)
  then have w: "listeners_wired s" and m: "marked (layers s) \<subseteq> set_option (selectedLayer s)"
    by (simp_all add: consistent_def)
  have h: "handle e s =
           Done (s\<lparr>sidebar_open := False, overlay_visible := False,
                   geojsonLayer := map_option (unselect (CANDIDATES_DATA s) (selectedLayer s)) (geojsonLayer s),
                   selectedLayer := None\<rparr>)"
    using assms(2) w by (auto simp: closeSidebar_eq [OF in_range [OF c]] cleared_def)
  have r: "\<forall>j. selectedLayer s = Some j \<longrightarrow> j < length (layers s)" by (rule in_range [OF c])
  let ?s' = "s\<lparr>sidebar_open := False, overlay_visible := False,
                   geojsonLayer := map_option (unselect (CANDIDATES_DATA s) (selectedLayer s)) (geojsonLayer s),
                   selectedLayer := None\<rparr>"
  have l: "layers ?s' = unselect (CANDIDATES_DATA s) (selectedLayer s) (layers s)"
    by (rule layers_cleared) simp
  have "marked (layers ?s') = {}" unfolding l by (rule marked_unselect [OF m])
  moreover have "\<forall>j. selectedLayer s = Some j \<longrightarrow>
            options (layers ?s' ! j) = getFeatureStyle (CANDIDATES_DATA s) (feature_of (layers s ! j))"
    unfolding l using r by (auto simp: options_unselect_selected)
  ultimately show ?thesis
    unfolding step_def h state_of.simps by simp
qed


theorem close_clears_selection_only_witness:
  "run [Click 0] sample_loaded =
     run [Click 0] (boot (Response True (Some sample_candidates)) (Some sample_features)) \<and>
   selectedLayer (run [Click 0] sample_loaded) = Some 0 \<and>
   sidebar_open (run [Click 0] sample_loaded) \<and>
   currentPrefecture (run [Click 0] sample_loaded) = Some (JNum 13) \<and>
   marked (layers (step (KeyDown ''Escape'') (run [Click 0] sample_loaded))) = {} \<and>
   currentPrefecture (step (KeyDown ''Escape'') (run [Click 0] sample_loaded)) = Some (JNum 13) \<and>
   viewport (step (KeyDown ''Escape'') (run [Click 0] sample_loaded)) =
     viewport (run [Click 0] sample_loaded)"
proof -
  have r: "run [Click 0] sample_loaded =
     run [Click 0] (boot (Response True (Some sample_candidates)) (Some sample_features))"
    by (simp add: sample_loaded_def)
  have e: "KeyDown ''Escape'' = SidebarCloseClick \<or> KeyDown ''Escape'' = OverlayClick \<or>
           KeyDown ''Escape'' = KeyDown ''Escape'' \<or>
           (\<exists>deltaY. 100 < deltaY \<and> KeyDown ''Escape'' = SidebarTouchEnd deltaY True)" by simp
  have v: "selectedLayer (run [Click 0] sample_loaded) = Some 0"
    "sidebar_open (run [Click 0] sample_loaded)"
    "currentPrefecture (run [Click 0] sample_loaded) = Some (JNum 13)"
    by (simp_all add: sample_defs load_defs style_defs handler_defs Let_def)
  from close_clears_selection_only [OF r e] r v show ?thesis by simp
qed

text \<open>
  C8. In every reachable state the reset button ends normally in the idle state: the
  view requested is the whole-country centre and zoom, no prefecture is zoomed, no layer
  is selected or marked, the formerly selected layer and every layer that is not under the
  mouse pointer have exactly the style of their feature, the panel and the overlay are
  hidden, the prefecture selector is cleared and the
  district selector is disabled with only its placeholder option. The emphasis of a layer
  under the mouse pointer (weight 2) is not a selection mark; it is removed by that
  layer's mouse-out event.
\<close>

theorem reset_yields_idle:
  assumes "s = run es (boot fetched election_data)"
  shows "handle ResetClick s =
           Done (s\<lparr>viewport := Some (SetView JAPAN_CENTER JAPAN_ZOOM),
                   map_calls := map_calls s @ [SetView JAPAN_CENTER JAPAN_ZOOM],
                   currentPrefecture := None,
                   geojsonLayer := map_option (unselect (CANDIDATES_DATA s) (selectedLayer s)) (geojsonLayer s),
                   selectedLayer := None,
                   sidebar_open := False, overlay_visible := False,
                   prefecture_select_value := [],
                   district_select_options := [([], district_placeholder_text)],
                   district_select_value := [],
                   district_select_disabled := True\<rparr>) \<and>
         viewport (step ResetClick s) = Some (SetView JAPAN_CENTER JAPAN_ZOOM) \<and>
         currentPrefecture (step ResetClick s) = None \<and>
         selectedLayer (step ResetClick s) = None \<and>
         marked (layers (step ResetClick s)) = {} \<and>
         (\<forall>j. selectedLayer s = Some j \<longrightarrow>
            options (layers (step ResetClick s) ! j) =
              getFeatureStyle (CANDIDATES_DATA s) (feature_of (layers s ! j))) \<and>
         (\<forall>i<length (layers s). i \<notin> hovering es \<longrightarrow>
            options (layers (step ResetClick s) ! i) =
              getFeatureStyle (CANDIDATES_DATA s) (feature_of (layers s ! i))) \<and>
         \<not> sidebar_open (step ResetClick s) \<and> \<not> overlay_visible (step ResetClick s) \<and>
         prefecture_select_value (step ResetClick s) = [] \<and>
         district_select_value (step ResetClick s) = [] \<and>
         district_select_options (step ResetClick s) = [([], district_placeholder_text)] \<and>
         district_select_disabled (step ResetClick s)"
proof -
  have c: "consistent s" unfolding assms(1) by (rule consistent_reachable)
  then have w: "listeners_wired s" and m: "marked (layers s) \<subseteq> set_option (selectedLayer s)"
    by (simp_all add: consistent_def)
  let ?s' = "s\<lparr>viewport := Some (SetView JAPAN_CENTER JAPAN_ZOOM),
                   map_calls := map_calls s @ [SetView JAPAN_CENTER JAPAN_ZOOM],
                   currentPrefecture := None,
                   geojsonLayer := map_option (unselect (CANDIDATES_DATA s) (selectedLayer s)) (geojsonLayer s),
                   selectedLayer := None,
                   sidebar_open := False, overlay_visible := False,
                   prefecture_select_value := [],
                   district_select_options := [([], district_placeholder_text)],
                   district_select_value := [],
                   district_select_disabled := True\<rparr>"
  have h: "handle ResetClick s = Done ?s'"
    using w by (simp add: resetView_eq [OF in_range [OF c]] cleared_def)
  have r: "\<forall>j. selectedLayer s = Some j \<longrightarrow> j < length (layers s)" by (rule in_range [OF c])
  have l: "layers ?s' = unselect (CANDIDATES_DATA s) (selectedLayer s) (layers s)"
    by (rule layers_cleared) simp
  have "marked (layers ?s') = {}" unfolding l by (rule marked_unselect [OF m])
  moreover have "\<forall>j. selectedLayer s = Some j \<longrightarrow>
            options (layers ?s' ! j) = getFeatureStyle (CANDIDATES_DATA s) (feature_of (layers s ! j))"
    unfolding l using r by (auto simp: options_unselect_selected)
  moreover have "\<forall>i<length (layers s). i \<notin> hovering es \<longrightarrow>
            options (layers ?s' ! i) = getFeatureStyle (CANDIDATES_DATA s) (feature_of (layers s ! i))"
  proof -
    have "plain (CANDIDATES_DATA s) (selectedLayer s) (hovering es) (layers s)"
      unfolding assms(1) by (rule plain_reachable)
    from plain_unselect [OF this] show ?thesis unfolding l by (simp add: plain_def)
  qed
  ultimately show ?thesis
    unfolding step_def h state_of.simps by simp
qed

theorem reset_yields_idle_witness:
  "run [PrefectureChange ''13'', Click 0] sample_loaded =
     run [PrefectureChange ''13'', Click 0]
       (boot (Response True (Some sample_candidates)) (Some sample_features)) \<and>
   currentPrefecture (run [PrefectureChange ''13'', Click 0] sample_loaded) = Some (JNum 13) \<and>
   selectedLayer (run [PrefectureChange ''13'', Click 0] sample_loaded) = Some 0 \<and>
   sidebar_open (run [PrefectureChange ''13'', Click 0] sample_loaded) \<and>
   prefecture_select_value (run [PrefectureChange ''13'', Click 0] sample_loaded) = ''13'' \<and>
   viewport (step ResetClick (run [PrefectureChange ''13'', Click 0] sample_loaded)) =
     Some (SetView JAPAN_CENTER JAPAN_ZOOM) \<and>
   currentPrefecture (step ResetClick (run [PrefectureChange ''13'', Click 0] sample_loaded)) = None \<and>
   selectedLayer (step ResetClick (run [PrefectureChange ''13'', Click 0] sample_loaded)) = None \<and>
   marked (layers (step ResetClick (run [PrefectureChange ''13'', Click 0] sample_loaded))) = {} \<and>
   \<not> sidebar_open (step ResetClick (run [PrefectureChange ''13'', Click 0] sample_loaded)) \<and>
   prefecture_select_value (step ResetClick (run [PrefectureChange ''13'', Click 0] sample_loaded)) = []"
proof -
  have r: "run [PrefectureChange ''13'', Click 0] sample_loaded =
     run [PrefectureChange ''13'', Click 0]
       (boot (Response True (Some sample_candidates)) (Some sample_features))"
    by (simp add: sample_loaded_def)
  have v: "currentPrefecture (run [PrefectureChange ''13'', Click 0] sample_loaded) = Some (JNum 13)"
    "selectedLayer (run [PrefectureChange ''13'', Click 0] sample_loaded) = Some 0"
    "sidebar_open (run [PrefectureChange ''13'', Click 0] sample_loaded)"
    "prefecture_select_value (run [PrefectureChange ''13'', Click 0] sample_loaded) = ''13''"
    by (simp_all add: sample_defs load_defs style_defs handler_defs Let_def)
  from reset_yields_idle [OF r] r v show ?thesis by simp
qed




text \<open>
  C5. The claim: selecting a district of the prefecture that is already zoomed never
  requests the prefecture fit again, also when the prefecture was zoomed from the
  selector. In the sample, whose features carry the prefecture as the number 13, choosing
  prefecture \<^verbatim>\<open>13\<close> in the selector stores the string \<^verbatim>\<open>'13'\<close> as the zoomed
  prefecture; the click on a district of that prefecture then compares it with the number
  13 by \<^verbatim>\<open>!==\<close> and requests the same fit a second time.
\<close>

theorem dropdown_zoom_then_click_fits_again:
  "ken (feature_of (layers sample_loaded ! 0)) = JNum 13 \<and>
   currentPrefecture (step (PrefectureChange ''13'') sample_loaded) = Some (JStr ''13'') \<and>
   map_calls (step (PrefectureChange ''13'') sample_loaded) =
     [FitBounds \<lparr>south = 35.5, west = 139.6, north = 35.7, east = 139.8\<rparr> 50 10] \<and>
   map_calls (run [PrefectureChange ''13'', Click 0] sample_loaded) =
     [FitBounds \<lparr>south = 35.5, west = 139.6, north = 35.7, east = 139.8\<rparr> 50 10,
      FitBounds \<lparr>south = 35.5, west = 139.6, north = 35.7, east = 139.8\<rparr> 50 10]"
  by (simp add: layers_def sample_defs load_defs style_defs handler_defs Let_def)




lemma selects_features:
  assumes "map feature_of ls' = map feature_of ls"
  shows "selects ls' i e = selects ls i e"
  by (cases e) (simp_all add: find_target_features [OF assms])

lemma features_step_select:
  assumes "consistent s" "i < length (layers s)" "geometry (feature_of (layers s ! i)) \<noteq> []"
    and "selects (layers s) i e"
  shows "map feature_of (layers (step e s)) = map feature_of (layers s)"
  using select_layers [OF assms] by simp

text \<open>
  C6. In every reachable state only the selected layer can carry the selection mark, so
  at most one layer is marked. When two different layers \<open>a\<close> and \<open>b\<close>, each with at
  least one position in its geometry, are selected one after the other, by a click or by
  the district selector, then \<open>b\<close> is the selected layer, it has the selection style over
  the style of its feature, it is the only marked layer, and \<open>a\<close>, like every other layer
  that is not under the mouse pointer, has exactly the style of its feature.
\<close>

theorem select_a_then_b:
  assumes "s = run es (boot fetched election_data)"
  shows "marked (layers s) \<subseteq> set_option (selectedLayer s) \<and>
         (\<forall>i \<in> marked (layers s). \<forall>j \<in> marked (layers s). i = j) \<and>
         (a < length (layers s) \<and> b < length (layers s) \<and> a \<noteq> b \<and>
          geometry (feature_of (layers s ! a)) \<noteq> [] \<and>
          geometry (feature_of (layers s ! b)) \<noteq> [] \<and>
          selects (layers s) a ea \<and> selects (layers s) b eb \<longrightarrow>
            selectedLayer (step eb (step ea s)) = Some b \<and>
            marked (layers (step eb (step ea s))) = {b} \<and>
            options (layers (step eb (step ea s)) ! b) =
              highlight 3 (getFeatureStyle (CANDIDATES_DATA s) (feature_of (layers s ! b))) \<and>
            options (layers (step eb (step ea s)) ! a) =
              getFeatureStyle (CANDIDATES_DATA s) (feature_of (layers s ! a)) \<and>
            (\<forall>i<length (layers s). i \<noteq> b \<and> i \<notin> hovering es \<longrightarrow>
               options (layers (step eb (step ea s)) ! i) =
                 getFeatureStyle (CANDIDATES_DATA s) (feature_of (layers s ! i))))"
proof -
  have c: "consistent s" unfolding assms(1) by (rule consistent_reachable)
  have p: "plain (CANDIDATES_DATA s) (selectedLayer s) (hovering es) (layers s)"
    unfolding assms(1) by (rule plain_reachable)
  from c have m: "marked (layers s) \<subseteq> set_option (selectedLayer s)"
    and f: "fills_ok (CANDIDATES_DATA s) (layers s)"
    by (simp_all add: consistent_def)
  from m have one: "\<forall>i \<in> marked (layers s). \<forall>j \<in> marked (layers s). i = j"
    by (cases "selectedLayer s") auto
  have two: "selectedLayer (step eb (step ea s)) = Some b \<and>
            marked (layers (step eb (step ea s))) = {b} \<and>
            options (layers (step eb (step ea s)) ! b) =
              highlight 3 (getFeatureStyle (CANDIDATES_DATA s) (feature_of (layers s ! b))) \<and>
            options (layers (step eb (step ea s)) ! a) =
              getFeatureStyle (CANDIDATES_DATA s) (feature_of (layers s ! a)) \<and>
            (\<forall>i<length (layers s). i \<noteq> b \<and> i \<notin> hovering es \<longrightarrow>
               options (layers (step eb (step ea s)) ! i) =
                 getFeatureStyle (CANDIDATES_DATA s) (feature_of (layers s ! i)))"
    if h: "a < length (layers s)" "b < length (layers s)" "a \<noteq> b"
      "geometry (feature_of (layers s ! a)) \<noteq> []" "geometry (feature_of (layers s ! b)) \<noteq> []"
      "selects (layers s) a ea" "selects (layers s) b eb"
  proof -
    let ?cd = "CANDIDATES_DATA s"
    let ?U = "unselect ?cd (selectedLayer s) (layers s)"
    let ?A = "mark_at a 3 ?U"
    from select_layers [OF c h(1,4,6)] have
      A: "layers (step ea s) = ?A" "selectedLayer (step ea s) = Some a"
         "CANDIDATES_DATA (step ea s) = ?cd"
      by simp_all
    have c1: "consistent (step ea s)" by (rule consistent_step [OF c])
    have fa: "map feature_of (layers (step ea s)) = map feature_of (layers s)"
      unfolding A(1) by simp
    have b1: "b < length (layers (step ea s))" unfolding A(1) using h(2) by simp
    have g1: "geometry (feature_of (layers (step ea s) ! b)) \<noteq> []"
      unfolding A(1) using h(5) by simp
    have s1: "selects (layers (step ea s)) b eb"
      using h(7) by (simp add: selects_features [OF fa])
    from select_layers [OF c1 b1 g1 s1] have
      B: "layers (step eb (step ea s)) = mark_at b 3 (reset_at ?cd a ?A)"
         "selectedLayer (step eb (step ea s)) = Some b"
      by (simp_all add: A unselect_def)
    have mU: "marked ?U = {}" by (rule marked_unselect [OF m])
    have mk: "marked (mark_at b 3 (reset_at ?cd a ?A)) = {b}"
      using h(1,2,3) by (auto simp: marked_mark_at_3 marked_reset_at mU)
    have fU: "fills_ok ?cd ?U" by (rule fills_ok_unselect [OF f])
    have "fillColor (options (?U ! b)) = fillColor (getFeatureStyle ?cd (feature_of (?U ! b)))"
      using fU h(2) by (simp add: fills_ok_def)
    then have hb: "highlight 3 (options (?U ! b)) =
        highlight 3 (getFeatureStyle ?cd (feature_of (layers s ! b)))"
      using highlight_fill [of "options (?U ! b)" "getFeatureStyle ?cd (feature_of (?U ! b))" 3]
      by simp
    have ob: "options (mark_at b 3 (reset_at ?cd a ?A) ! b) =
        highlight 3 (getFeatureStyle ?cd (feature_of (layers s ! b)))"
      using h(1,2,3) hb by (simp add: nth_mark_at nth_reset_at)
    have oa: "options (mark_at b 3 (reset_at ?cd a ?A) ! a) =
        getFeatureStyle ?cd (feature_of (layers s ! a))"
      using h(1,2,3) by (simp add: nth_mark_at nth_reset_at)
    have ua: "unselect ?cd (Some a) ?A = reset_at ?cd a ?A" by (simp add: unselect_def)
    have "plain ?cd (Some b) (hovering es) (mark_at b 3 (unselect ?cd (Some a) ?A))"
      by (rule plain_select [OF plain_select [OF p]])
    then have ot: "\<forall>i<length (layers s). i \<noteq> b \<and> i \<notin> hovering es \<longrightarrow>
               options (mark_at b 3 (reset_at ?cd a ?A) ! i) =
                 getFeatureStyle ?cd (feature_of (layers s ! i))"
      unfolding ua by (simp add: plain_def)
    from B mk ob oa ot show ?thesis by simp
  qed
  from m one two show ?thesis by blast
qed

theorem select_a_then_b_witness:
  "sample_zoomed =
     run [PrefectureChange ''13''] (boot (Response True (Some sample_candidates)) (Some sample_features)) \<and>
   (0::nat) < length (layers sample_zoomed) \<and> 1 < length (layers sample_zoomed) \<and> (0::nat) \<noteq> 1 \<and>
   geometry (feature_of (layers sample_zoomed ! 0)) \<noteq> [] \<and>
   geometry (feature_of (layers sample_zoomed ! 1)) \<noteq> [] \<and>
   selects (layers sample_zoomed) 0 (Click 0) \<and>
   selects (layers sample_zoomed) 1 (DistrictChange ''13002'') \<and>
   selectedLayer (step (DistrictChange ''13002'') (step (Click 0) sample_zoomed)) = Some 1 \<and>
   marked (layers (step (DistrictChange ''13002'') (step (Click 0) sample_zoomed))) = {1} \<and>
   options (layers (step (DistrictChange ''13002'') (step (Click 0) sample_zoomed)) ! 0) =
     getFeatureStyle (CANDIDATES_DATA sample_zoomed) (feature_of (layers sample_zoomed ! 0))"
proof -
  have h: "(0::nat) < length (layers sample_zoomed)" "1 < length (layers sample_zoomed)"
    "(0::nat) \<noteq> 1"
    "geometry (feature_of (layers sample_zoomed ! 0)) \<noteq> []"
    "geometry (feature_of (layers sample_zoomed ! 1)) \<noteq> []"
    "selects (layers sample_zoomed) 0 (Click 0)"
    "selects (layers sample_zoomed) 1 (DistrictChange ''13002'')"
    by (simp_all add: sample_zoomed_layers find_target_def sample_features_def onEachFeature_def)
  from select_a_then_b [OF sample_zoomed_reachable, of 0 1 "Click 0" "DistrictChange ''13002''"]
    h sample_zoomed_reachable
  show ?thesis by blast
qed

end
